theory Spec2Isabelle
  imports Complex_Main "HOL-Library.Product_Lexorder"
begin

section \<open>Batch-PIT normalization: the sample buffer\<close>

text \<open>
  A shallow embedding of \<^verbatim>\<open>BatchPitNorm1d\<close>
  (\<^verbatim>\<open>src/bpitnorm/modules/BatchPitNormalization.py\<close>).

  Conventions of the model.
  \<^item> Python integers are \<open>int\<close>.
  \<^item> A tensor element is a \<open>fnum\<close>: a real number (arithmetic is exact: no rounding,
    overflow or underflow, and zero carries no sign), an infinity or NaN.
  \<^item> A 2-D tensor of shape \<open>(n, num_features)\<close> is the list of its \<open>n\<close> rows; the buffer
    operations move whole rows. A batch has \<open>num_features\<close> columns, as the module's
    input contract says.
  \<^item> An exception is a value of type \<open>error\<close>; a method that mutates the module returns
    the module's state at the moment it returns or raises, paired with its outcome.
  \<^item> The two calls of \<^verbatim>\<open>torch.randperm\<close> in \<^verbatim>\<open>fill\<close> are not computed: their
    outcomes are an argument of \<open>fill\<close>, and \<open>is_randperm\<close> says which outcomes are possible.
\<close>

datatype error = AssertionError string | RuntimeError string | TypeError string | ZeroDivisionError

datatype fnum = Fin real | PInf | NInf | NaN

type_synonym row = "fnum list"
type_synonym tensor = "row list"

record bpn =
  num_pit_samples :: int
  take_num_samples_when_full :: int
  num_features :: int
  trainable_bandwidths :: bool
  bw :: "fnum list"
  size_b :: int
  cdf_data :: tensor
  normal_backtransform :: bool
  training :: bool

text \<open>
  \<open>size_b\<close> is the attribute \<^verbatim>\<open>self.size\<close>; \<open>cdf_data\<close> is the registered buffer that the
  property \<^verbatim>\<open>values\<close> returns; \<open>bw\<close> is the only row of the \<open>(1, num_features)\<close> tensor
  \<^verbatim>\<open>self.bw\<close>; \<open>training\<close> is the mode flag of \<^verbatim>\<open>nn.Module\<close>, which is set when a
  module is constructed.
\<close>

subsection \<open>Constructor\<close>

text \<open>
  Allocating a tensor of shape \<open>(rows, cols)\<close> (\<^verbatim>\<open>torch.empty\<close>, \<^verbatim>\<open>torch.rand\<close>) raises
  when a dimension does not fit a signed 64-bit integer, when a dimension is negative, and
  when there is no memory for the elements. Whether there is memory is not the program's to
  decide: \<open>mem_ok\<close> is a parameter of the model; a tensor without elements needs none.
\<close>

definition int64 :: "int \<Rightarrow> bool" where
  "int64 v = (- (2 ^ 63) \<le> v \<and> v < 2 ^ 63)"

definition torch_alloc :: "(int \<Rightarrow> int \<Rightarrow> bool) \<Rightarrow> int \<Rightarrow> int \<Rightarrow> error option" where
  "torch_alloc mem_ok rows cols =
     (if \<not> int64 rows \<or> \<not> int64 cols then Some (TypeError ''Overflow when unpacking long'')
      else if rows < 0 \<or> cols < 0
        then Some (RuntimeError ''Trying to create tensor with negative dimension'')
      else if rows * cols = 0 \<or> mem_ok rows cols then None
      else Some (RuntimeError ''not enough memory''))"

text \<open>
  \<^verbatim>\<open>__init__\<close>, lines 23-45. The two assertions come first. Then the tensor
  \<^verbatim>\<open>self.bw\<close> of shape \<open>(1, num_features)\<close> is allocated (line 35 or 37), then the
  buffer of shape \<open>(num_pit_samples, num_features)\<close> (line 41). \<open>rand_bw\<close> is the outcome
  of \<^verbatim>\<open>torch.rand\<close>, read only when the bandwidths are trainable.
\<close>

definition init ::
  "int \<Rightarrow> int \<Rightarrow> int \<Rightarrow> bool \<Rightarrow> bool \<Rightarrow> (int \<Rightarrow> int \<Rightarrow> bool) \<Rightarrow> fnum list \<Rightarrow> error + bpn" where
  "init n_features n_pit_samples n_take normal_bt trainable mem_ok rand_bw =
     (if \<not> n_pit_samples > 0
        then Inl (AssertionError ''Require at least one sample for PIT normalization.'')
      else if \<not> n_take \<ge> 0 then Inl (AssertionError [])
      else
        (case torch_alloc mem_ok 1 n_features of
           Some e \<Rightarrow> Inl e
         | None \<Rightarrow>
            (case torch_alloc mem_ok n_pit_samples n_features of
               Some e \<Rightarrow> Inl e
             | None \<Rightarrow>
                 Inr \<lparr> num_pit_samples = n_pit_samples,
                       take_num_samples_when_full = n_take,
                       num_features = n_features,
                       trainable_bandwidths = trainable,
                       bw = (if trainable then rand_bw else replicate (nat n_features) NaN),
                       size_b = 0,
                       cdf_data = replicate (nat n_pit_samples) (replicate (nat n_features) NaN),
                       normal_backtransform = normal_bt,
                       training = True \<rparr>)))"

definition is_full :: "bpn \<Rightarrow> bool" where
  "is_full s = (size_b s = num_pit_samples s)"

definition capacity_left :: "bpn \<Rightarrow> int" where
  "capacity_left s = num_pit_samples s - size_b s"

subsection \<open>Slices and indexed assignment\<close>

text \<open>
  A Python slice \<^verbatim>\<open>[a:b]\<close> of a sequence of length \<open>L\<close>: a negative bound counts from the
  end, and both bounds are clipped to the sequence.
\<close>

definition slice_bounds :: "nat \<Rightarrow> int \<Rightarrow> int \<Rightarrow> nat \<times> nat" where
  "slice_bounds L a b =
     (let lo = (if a < 0 then max 0 (a + int L) else min a (int L));
          hi = (if b < 0 then max 0 (b + int L) else min b (int L))
      in (nat lo, nat (max lo hi)))"

definition get_slice :: "'a list \<Rightarrow> int \<Rightarrow> int \<Rightarrow> 'a list" where
  "get_slice xs a b = (case slice_bounds (length xs) a b of (lo, hi) \<Rightarrow> take (hi - lo) (drop lo xs))"

text \<open>
  \<^verbatim>\<open>xs[a:b] = src\<close> on tensors copies \<open>src\<close> over the slice: the row counts agree, or
  \<open>src\<close> has one row, which is broadcast; anything else is a shape mismatch.
\<close>

definition set_slice :: "'a list \<Rightarrow> int \<Rightarrow> int \<Rightarrow> 'a list \<Rightarrow> error + 'a list" where
  "set_slice xs a b src =
     (case slice_bounds (length xs) a b of (lo, hi) \<Rightarrow>
        if length src = hi - lo then Inr (take lo xs @ src @ drop hi xs)
        else if length src = 1 then Inr (take lo xs @ replicate (hi - lo) (hd src) @ drop hi xs)
        else Inl (RuntimeError ''shape mismatch''))"

text \<open>
  \<^verbatim>\<open>xs[idx] = src\<close> with an index tensor: row \<open>idx[j]\<close> receives \<open>src[j]\<close>; the shapes are
  checked before anything is written.
\<close>

definition index_put :: "'a list \<Rightarrow> nat list \<Rightarrow> 'a list \<Rightarrow> error + 'a list" where
  "index_put xs idx src =
     (if length src = length idx then Inr (foldl (\<lambda>acc (i, v). acc[i := v]) xs (zip idx src))
      else if length src = 1 then Inr (foldl (\<lambda>acc i. acc[i := hd src]) xs idx)
      else Inl (RuntimeError ''shape mismatch''))"

definition index_select :: "'a list \<Rightarrow> nat list \<Rightarrow> 'a list" where
  "index_select xs idx = map (\<lambda>i. xs ! i) idx"

text \<open>The possible outcomes of \<^verbatim>\<open>torch.randperm(n)\<close>: the permutations of \<open>0, ..., n-1\<close>.\<close>

definition is_randperm :: "nat \<Rightarrow> nat list \<Rightarrow> bool" where
  "is_randperm n p = (length p = n \<and> set p = {0..<n})"

subsection \<open>fill\<close>

text \<open>
  \<^verbatim>\<open>fill\<close>, lines 59-82. \<open>draws = (pb, pv)\<close> holds the outcomes of
  \<^verbatim>\<open>torch.randperm(n=min(batch_size, take_num_samples_when_full))\<close> and of
  \<^verbatim>\<open>torch.randperm(n=num_pit_samples)\<close>. The recursive call of the second branch meets a
  buffer without capacity left, so the recursion is at most one level deep.
\<close>

function fill :: "bpn \<Rightarrow> nat list \<times> nat list \<Rightarrow> tensor \<Rightarrow> bpn \<times> (error + unit)" where
  "fill s draws data =
     (if \<not> training s
        then (s, Inl (AssertionError ''Must be in training mode to allow filling.''))
      else
        let batch_size = int (length data);
            cap_left = capacity_left s
        in if cap_left \<ge> batch_size then
             (case set_slice (cdf_data s) (size_b s) (size_b s + batch_size) data of
                Inl e \<Rightarrow> (s, Inl e)
              | Inr vs \<Rightarrow> (s\<lparr>cdf_data := vs, size_b := size_b s + batch_size\<rparr>, Inr ()))
           else if cap_left > 0 then
             (case set_slice (cdf_data s) (size_b s) (num_pit_samples s) (get_slice data 0 cap_left) of
                Inl e \<Rightarrow> (s, Inl e)
              | Inr vs \<Rightarrow>
                  fill (s\<lparr>cdf_data := vs, size_b := size_b s + cap_left\<rparr>) draws
                       (get_slice data cap_left batch_size))
           else if take_num_samples_when_full s = 0 then (s, Inr ())
           else
             let k = min batch_size (take_num_samples_when_full s)
             in if k < 0 then (s, Inl (RuntimeError ''randperm: n must be non-negative''))
                else
                  let use_batch_indexes = fst draws;
                      use_values_indexes = get_slice (snd draws) 0 k
                  in (case index_put (cdf_data s) use_values_indexes
                             (index_select data use_batch_indexes) of
                        Inl e \<Rightarrow> (s, Inl e)
                      | Inr vs \<Rightarrow> (s\<lparr>cdf_data := vs\<rparr>, Inr ())))"
  by pat_completeness auto
termination
  by (relation "measure (\<lambda>(s, draws, data). if capacity_left s > 0 then 1 else 0)")
     (auto simp: capacity_left_def)

text \<open>A caller's sequence of \<^verbatim>\<open>fill\<close> calls; an exception ends the sequence.\<close>

fun fill_all :: "bpn \<Rightarrow> ((nat list \<times> nat list) \<times> tensor) list \<Rightarrow> bpn \<times> (error + unit)" where
  "fill_all s [] = (s, Inr ())"
| "fill_all s (c # cs) =
     (case fill s (fst c) (snd c) of
        (s', Inl e) \<Rightarrow> (s', Inl e)
      | (s', Inr u) \<Rightarrow> fill_all s' cs)"

section \<open>Arithmetic on tensor elements\<close>

text \<open>
  IEEE arithmetic without rounding: NaN is contagious, the infinities follow the usual
  rules, and a finite number divided by zero is an infinity of the number's sign
  (\<open>0 / 0\<close> is NaN).
\<close>

fun fneg :: "fnum \<Rightarrow> fnum" where
  "fneg (Fin a) = Fin (- a)"
| "fneg PInf = NInf"
| "fneg NInf = PInf"
| "fneg NaN = NaN"

fun fadd :: "fnum \<Rightarrow> fnum \<Rightarrow> fnum" where
  "fadd (Fin a) (Fin b) = Fin (a + b)"
| "fadd NaN y = NaN"
| "fadd x NaN = NaN"
| "fadd PInf NInf = NaN"
| "fadd NInf PInf = NaN"
| "fadd PInf y = PInf"
| "fadd x PInf = PInf"
| "fadd NInf y = NInf"
| "fadd x NInf = NInf"

definition fsub :: "fnum \<Rightarrow> fnum \<Rightarrow> fnum" where
  "fsub x y = fadd x (fneg y)"

fun fmul :: "fnum \<Rightarrow> fnum \<Rightarrow> fnum" where
  "fmul (Fin a) (Fin b) = Fin (a * b)"
| "fmul NaN y = NaN"
| "fmul x NaN = NaN"
| "fmul (Fin a) y = (if a = 0 then NaN else if a > 0 then y else fneg y)"
| "fmul x (Fin b) = (if b = 0 then NaN else if b > 0 then x else fneg x)"
| "fmul PInf y = y"
| "fmul NInf y = fneg y"

fun fdiv :: "fnum \<Rightarrow> fnum \<Rightarrow> fnum" where
  "fdiv (Fin a) (Fin b) =
     (if b \<noteq> 0 then Fin (a / b) else if a = 0 then NaN else if a > 0 then PInf else NInf)"
| "fdiv NaN y = NaN"
| "fdiv x NaN = NaN"
| "fdiv (Fin a) y = Fin 0"
| "fdiv x (Fin b) = (if b \<ge> 0 then x else fneg x)"
| "fdiv x y = NaN"

fun fsqrt :: "fnum \<Rightarrow> fnum" where
  "fsqrt (Fin a) = (if a < 0 then NaN else Fin (sqrt a))"
| "fsqrt PInf = PInf"
| "fsqrt NInf = NaN"
| "fsqrt NaN = NaN"

text \<open>The sort key of an element: \<open>-inf\<close>, the finite numbers in their order, \<open>+inf\<close>, NaN last.\<close>

fun fkey :: "fnum \<Rightarrow> nat \<times> real" where
  "fkey NInf = (0, 0)"
| "fkey (Fin a) = (1, a)"
| "fkey PInf = (2, 0)"
| "fkey NaN = (3, 0)"

text \<open>\<^verbatim>\<open>torch.min(a, b)\<close> of two scalars: the smaller one, NaN if either is NaN.\<close>

definition fmin :: "fnum \<Rightarrow> fnum \<Rightarrow> fnum" where
  "fmin x y = (if x = NaN \<or> y = NaN then NaN else if fkey x \<le> fkey y then x else y)"

text \<open>\<^verbatim>\<open>torch.sum\<close> of a 1-D tensor.\<close>

definition fsum :: "fnum list \<Rightarrow> fnum" where
  "fsum xs = foldl fadd (Fin 0) xs"

text \<open>
  \<^verbatim>\<open>torch.special.erf\<close>, \<^verbatim>\<open>torch.special.erfinv\<close>: the real functions \<open>erf\<close> and
  \<open>erfinv\<close> are parameters of the model; these are their extensions to the special values.
\<close>

fun ferf :: "(real \<Rightarrow> real) \<Rightarrow> fnum \<Rightarrow> fnum" where
  "ferf erf (Fin a) = Fin (erf a)"
| "ferf erf PInf = Fin 1"
| "ferf erf NInf = Fin (- 1)"
| "ferf erf NaN = NaN"

fun ferfinv :: "(real \<Rightarrow> real) \<Rightarrow> fnum \<Rightarrow> fnum" where
  "ferfinv erfinv (Fin a) =
     (if - 1 < a \<and> a < 1 then Fin (erfinv a)
      else if a = 1 then PInf else if a = - 1 then NInf else NaN)"
| "ferfinv erfinv x = NaN"

fun sigmoid :: "fnum \<Rightarrow> fnum" where
  "sigmoid (Fin a) = Fin (1 / (1 + exp (- a)))"
| "sigmoid PInf = Fin 1"
| "sigmoid NInf = Fin 0"
| "sigmoid NaN = NaN"

fun clip :: "real \<Rightarrow> real \<Rightarrow> fnum \<Rightarrow> fnum" where
  "clip lo hi (Fin a) = Fin (min (max a lo) hi)"
| "clip lo hi PInf = Fin hi"
| "clip lo hi NInf = Fin lo"
| "clip lo hi NaN = NaN"

definition isnan :: "fnum \<Rightarrow> bool" where
  "isnan x = (x = NaN)"

definition isinf :: "fnum \<Rightarrow> bool" where
  "isinf x = (x = PInf \<or> x = NInf)"

section \<open>The kernel CDF and the transform\<close>

definition standard_normal_cdf :: "(real \<Rightarrow> real) \<Rightarrow> fnum \<Rightarrow> fnum" where
  "standard_normal_cdf erf x = fmul (Fin 0.5) (fadd (Fin 1.0) (ferf erf (fdiv x (Fin (sqrt 2.0)))))"

text \<open>\<^verbatim>\<open>standard_normal_ppf\<close>, lines 89-97, on a 2-D tensor.\<close>

definition standard_normal_ppf :: "(real \<Rightarrow> real) \<Rightarrow> tensor \<Rightarrow> error + tensor" where
  "standard_normal_ppf erfinv x =
     (let p_min = 9 / 10 ^ 8;
          p_max = 1.0 - p_min;
          x' = map (map (clip p_min p_max)) x;
          res = map (map (\<lambda>v. fmul (Fin (sqrt 2.0)) (ferfinv erfinv (fsub (fmul (Fin 2.0) v) (Fin 1.0))))) x'
      in if \<not> (\<exists>v \<in> set (concat res). isnan v) \<and> \<not> (\<exists>v \<in> set (concat res). isinf v)
         then Inr res else Inl (AssertionError []))"

text \<open>
  \<^verbatim>\<open>torch.quantile(input, q, dim=0)\<close> of a 1-D tensor with the default linear
  interpolation: an empty input raises, a NaN in the input gives NaN, and otherwise the
  entries of rank \<open>floor (q * (m - 1))\<close> and \<open>ceil (q * (m - 1))\<close> of the sorted input are
  interpolated with \<^verbatim>\<open>lerp\<close>.
\<close>

definition lerp :: "fnum \<Rightarrow> fnum \<Rightarrow> real \<Rightarrow> fnum" where
  "lerp start end' weight =
     (if weight < 0.5 then fadd start (fmul (Fin weight) (fsub end' start))
      else fsub end' (fmul (fsub end' start) (Fin (1 - weight))))"

definition quantile :: "fnum list \<Rightarrow> real \<Rightarrow> error + fnum" where
  "quantile input q =
     (if input = [] then Inl (RuntimeError ''quantile() input tensor must be non-empty'')
      else if NaN \<in> set input then Inr NaN
      else
        let sorted = sort_key fkey input;
            rank = q * real (length input - 1);
            rank_below = nat \<lfloor>rank\<rfloor>;
            rank_above = nat \<lceil>rank\<rceil>;
            weight = rank - real rank_below
        in Inr (lerp (sorted ! rank_below) (sorted ! rank_above) weight))"

text \<open>\<^verbatim>\<open>Tensor.std()\<close> of a 1-D tensor: the sample standard deviation (divisor \<open>m - 1\<close>).\<close>

definition std :: "fnum list \<Rightarrow> fnum" where
  "std input =
     (let m = real (length input);
          mean = fdiv (fsum input) (Fin m);
          ss = fsum (map (\<lambda>v. fmul (fsub v mean) (fsub v mean)) input)
      in fsqrt (fdiv ss (Fin (m - 1))))"

text \<open>
  \<^verbatim>\<open>make_cdf\<close>, lines 100-109, for one feature: \<open>data\<close> is a 1-D tensor and \<open>bw_arg\<close>, the
  argument \<^verbatim>\<open>bw\<close>, is the feature's entry of \<^verbatim>\<open>self.bw\<close>. \<open>make_cdf_bw\<close> is the value of the local variable
  \<^verbatim>\<open>bw\<close> when the closure of line 109 is built.
\<close>

definition make_cdf_bw :: "bpn \<Rightarrow> fnum list \<Rightarrow> fnum \<Rightarrow> error + fnum" where
  "make_cdf_bw s data bw_arg =
     (let num_samples = length data
      in if \<not> trainable_bandwidths s then
           (case quantile data 0.25 of
              Inl e \<Rightarrow> Inl e
            | Inr q25 \<Rightarrow>
               (case quantile data 0.75 of
                  Inl e \<Rightarrow> Inl e
                | Inr q75 \<Rightarrow>
                    let IQR = fsub q75 q25
                    in Inr (fmul (fmul (Fin 0.9) (fmin (std data) (fdiv IQR (Fin 1.34))))
                                 (Fin (real num_samples powr (- 0.2))))))
         else Inr (sigmoid bw_arg))"

definition make_cdf :: "(real \<Rightarrow> real) \<Rightarrow> bpn \<Rightarrow> fnum list \<Rightarrow> fnum \<Rightarrow> error + (fnum \<Rightarrow> error + fnum)" where
  "make_cdf erf s data bw_arg =
     (let num_samples = length data
      in case make_cdf_bw s data bw_arg of
           Inl e \<Rightarrow> Inl e
         | Inr bw' \<Rightarrow>
             Inr (\<lambda>use_x.
               if num_samples = 0 then Inl ZeroDivisionError
               else Inr (fmul (Fin (1.0 / real num_samples))
                          (fsum (map (\<lambda>d. standard_normal_cdf erf (fdiv (fsub use_x d) bw')) data)))))"

text \<open>
  \<^verbatim>\<open>torch.vmap(f, in_dims=0, out_dims=0)\<close>: \<open>f\<close> at every entry, the first exception
  ending the evaluation.
\<close>

fun vmap :: "('a \<Rightarrow> error + 'b) \<Rightarrow> 'a list \<Rightarrow> error + 'b list" where
  "vmap f [] = Inr []"
| "vmap f (x # xs) =
     (case f x of
        Inl e \<Rightarrow> Inl e
      | Inr y \<Rightarrow> (case vmap f xs of Inl e \<Rightarrow> Inl e | Inr ys \<Rightarrow> Inr (y # ys)))"

text \<open>\<^verbatim>\<open>process_merged\<close>, lines 112-120, for one feature (one column of \<^verbatim>\<open>all_data\<close>).\<close>

definition process_merged :: "(real \<Rightarrow> real) \<Rightarrow> bpn \<Rightarrow> fnum list \<Rightarrow> fnum \<Rightarrow> error + fnum list" where
  "process_merged erf s all_data bandwidths =
     (let size = size_b s;
          data_cdf = get_slice all_data 0 size;
          data_sample = get_slice all_data size (size + int (length all_data))
      in case make_cdf erf s data_cdf bandwidths of
           Inl e \<Rightarrow> Inl e
         | Inr cdf \<Rightarrow> vmap cdf data_sample)"

text \<open>
  \<^verbatim>\<open>forward\<close>, lines 122-139. The map over the features (\<^verbatim>\<open>in_dims=1\<close>) takes column
  \<open>j\<close> of \<^verbatim>\<open>all_data\<close> with entry \<open>j\<close> of \<^verbatim>\<open>self.bw\<close>; \<^verbatim>\<open>out_dims=1\<close> makes the results
  the columns of the output.
\<close>

definition forward ::
  "(real \<Rightarrow> real) \<Rightarrow> (real \<Rightarrow> real) \<Rightarrow> bpn \<Rightarrow> nat list \<times> nat list \<Rightarrow> tensor \<Rightarrow> bpn \<times> (error + tensor)" where
  "forward erf erfinv s draws x =
     (let batch_size = int (length x);
          filled =
            (if training s then fill s draws x
             else if size_b s > 0 then (s, Inr ())
             else (s, Inl (AssertionError
                    ''Cannot compute forward pass without sample for the integral transform.'')))
      in case filled of
           (s1, Inl e) \<Rightarrow> (s1, Inl e)
         | (s1, Inr u) \<Rightarrow>
             let all_data = get_slice (cdf_data s1) 0 (size_b s1) @ x
             in if int (length all_data) \<noteq> size_b s1 + batch_size then (s1, Inl (AssertionError []))
                else
                  (case vmap (\<lambda>j. process_merged erf s1 (map (\<lambda>r. r ! j) all_data) (bw s1 ! j))
                          [0..<nat (num_features s1)] of
                     Inl e \<Rightarrow> (s1, Inl e)
                   | Inr cols \<Rightarrow>
                       let result = map (\<lambda>i. map (\<lambda>c. c ! i) cols) [0..<length x]
                       in if normal_backtransform s1 then
                            (case standard_normal_ppf erfinv result of
                               Inl e \<Rightarrow> (s1, Inl e)
                             | Inr res \<Rightarrow> (s1, Inr res))
                          else (s1, Inr (map (map (\<lambda>v. fsub v (Fin 0.5))) result))))"

section \<open>Reachable states\<close>

text \<open>
  The states of a module: constructed by \<open>init\<close>, then changed by \<open>fill\<close> (called
  directly or by \<open>forward\<close> in training mode) and by the caller's switching between
  training and evaluation mode.
\<close>

inductive reachable :: "bpn \<Rightarrow> bool" where
  reach_init: "init n_features n_pit_samples n_take normal_bt trainable mem_ok rand_bw = Inr s \<Longrightarrow> reachable s"
| reach_fill: "reachable s \<Longrightarrow> reachable (fst (fill s draws data))"
| reach_forward: "reachable s \<Longrightarrow> reachable (fst (forward erf erfinv s draws x))"
| reach_mode: "reachable s \<Longrightarrow> reachable (s\<lparr>training := b\<rparr>)"

section \<open>Auxiliary notions for the statements\<close>

text \<open>The buffer invariant: the fill level lies within the capacity, which is the number of rows.\<close>

definition buf_inv :: "bpn \<Rightarrow> bool" where
  "buf_inv s = (0 \<le> size_b s \<and> size_b s \<le> num_pit_samples s \<and>
                int (length (cdf_data s)) = num_pit_samples s)"

text \<open>The last branch of \<open>fill\<close> (lines 75-80), named for the statements below.\<close>

definition replace_when_full :: "bpn \<Rightarrow> nat list \<times> nat list \<Rightarrow> tensor \<Rightarrow> bpn \<times> (error + unit)" where
  "replace_when_full s draws data =
     (if take_num_samples_when_full s = 0 then (s, Inr ())
      else let k = min (int (length data)) (take_num_samples_when_full s)
        in if k < 0 then (s, Inl (RuntimeError ''randperm: n must be non-negative''))
           else (case index_put (cdf_data s) (get_slice (snd draws) 0 k) (index_select data (fst draws)) of
                   Inl e \<Rightarrow> (s, Inl e)
                 | Inr vs \<Rightarrow> (s\<lparr>cdf_data := vs\<rparr>, Inr ())))"

text \<open>\<open>fill\<close> writes \<^verbatim>\<open>values\<close> and \<^verbatim>\<open>size\<close> only: the other attributes agree.\<close>

definition same_config :: "bpn \<Rightarrow> bpn \<Rightarrow> bool" where
  "same_config s s' =
     (num_pit_samples s' = num_pit_samples s \<and>
      take_num_samples_when_full s' = take_num_samples_when_full s \<and>
      num_features s' = num_features s \<and>
      trainable_bandwidths s' = trainable_bandwidths s \<and>
      bw s' = bw s \<and>
      normal_backtransform s' = normal_backtransform s \<and>
      training s' = training s)"

text \<open>Two environments for the examples: one where every allocation finds memory, one where none does.\<close>

definition enough_memory :: "int \<Rightarrow> int \<Rightarrow> bool" where
  "enough_memory rows cols = True"


text \<open>A module with one feature and fixed bandwidths in a given buffer state, for the examples.\<close>

definition demo :: "int \<Rightarrow> int \<Rightarrow> int \<Rightarrow> tensor \<Rightarrow> bpn" where
  "demo cap n_take sz vals =
     \<lparr> num_pit_samples = cap, take_num_samples_when_full = n_take, num_features = 1,
       trainable_bandwidths = False, bw = [NaN], size_b = sz, cdf_data = vals,
       normal_backtransform = False, training = True \<rparr>"

text \<open>The part of \<open>forward\<close> after the buffer has been filled or the fill level checked (lines 130-139), named for the statements below.\<close>

definition forward_tail :: "(real \<Rightarrow> real) \<Rightarrow> (real \<Rightarrow> real) \<Rightarrow> bpn \<Rightarrow> tensor \<Rightarrow> bpn \<times> (error + tensor)" where
  "forward_tail erf erfinv s1 x =
     (let all_data = get_slice (cdf_data s1) 0 (size_b s1) @ x
      in if int (length all_data) \<noteq> size_b s1 + int (length x) then (s1, Inl (AssertionError []))
         else
           (case vmap (\<lambda>j. process_merged erf s1 (map (\<lambda>r. r ! j) all_data) (bw s1 ! j))
                   [0..<nat (num_features s1)] of
              Inl e \<Rightarrow> (s1, Inl e)
            | Inr cols \<Rightarrow>
                let result = map (\<lambda>i. map (\<lambda>c. c ! i) cols) [0..<length x]
                in if normal_backtransform s1 then
                     (case standard_normal_ppf erfinv result of
                        Inl e \<Rightarrow> (s1, Inl e)
                      | Inr res \<Rightarrow> (s1, Inr res))
                   else (s1, Inr (map (map (\<lambda>v. fsub v (Fin 0.5))) result))))"

text \<open>The specification's side of claim C1, in its words: the standard normal CDF \<open>\<Phi>\<close> and the kernel CDF \<open>F\<close> over the real numbers.\<close>

definition spec_Phi :: "(real \<Rightarrow> real) \<Rightarrow> real \<Rightarrow> real" where
  "spec_Phi erf z = 0.5 * (1 + erf (z / sqrt 2))"

definition spec_F :: "(real \<Rightarrow> real) \<Rightarrow> real list \<Rightarrow> real \<Rightarrow> real \<Rightarrow> real" where
  "spec_F erf reference_sample bandwidth x =
     (1 / real (length reference_sample)) *
       (\<Sum>i < length reference_sample. spec_Phi erf ((x - reference_sample ! i) / bandwidth))"

text \<open>Linear interpolation in a sorted list of real numbers at the fractional rank \<open>r\<close>, as \<open>quantile\<close> computes it on finite entries.\<close>

definition interp :: "real list \<Rightarrow> real \<Rightarrow> real" where
  "interp xs r = xs ! nat \<lfloor>r\<rfloor> + (r - real (nat \<lfloor>r\<rfloor>)) * (xs ! nat \<lceil>r\<rceil> - xs ! nat \<lfloor>r\<rfloor>)"

text \<open>
  Building the CDF for a reference sample and evaluating it at one query point, as
  \<open>process_merged\<close> does for every entry of the batch.
\<close>

definition eval_cdf :: "(real \<Rightarrow> real) \<Rightarrow> bpn \<Rightarrow> fnum list \<Rightarrow> fnum \<Rightarrow> fnum \<Rightarrow> error + fnum" where
  "eval_cdf erf s data bw_arg x =
     (case make_cdf erf s data bw_arg of Inl e \<Rightarrow> Inl e | Inr cdf \<Rightarrow> cdf x)"

text \<open>
  The error function by its power series, taken for the parameter \<open>erf\<close> in the closed
  examples.
\<close>

definition erf_series :: "real \<Rightarrow> real" where
  "erf_series x = 2 / sqrt pi * (\<Sum>n. (- 1) ^ n * x ^ (2 * n + 1) / (fact n * real (2 * n + 1)))"

text \<open>
  The specification's side of the bandwidth selection, in its words: the empirical
  percentiles (interpolated between the order statistics), the sample standard deviation
  \<open>sigma\<close>, and the bandwidth \<open>0.9 * min(sigma, IQR / 1.34) * m^(-0.2)\<close>.
\<close>

definition spec_quantile :: "real list \<Rightarrow> real \<Rightarrow> real" where
  "spec_quantile reference_sample q =
     interp (sort reference_sample) (q * real (length reference_sample - 1))"

definition spec_sigma :: "real list \<Rightarrow> real" where
  "spec_sigma reference_sample =
     (let m = real (length reference_sample);
          mean = sum_list reference_sample / m
      in sqrt ((\<Sum>x\<leftarrow>reference_sample. (x - mean) * (x - mean)) / (m - 1)))"

definition spec_bandwidth :: "real list \<Rightarrow> real" where
  "spec_bandwidth reference_sample =
     (let IQR = spec_quantile reference_sample 0.75 - spec_quantile reference_sample 0.25;
          sigma = spec_sigma reference_sample;
          m = real (length reference_sample)
      in 0.9 * min sigma (IQR / 1.34) * m powr (- 0.2))"

section \<open>Properties of the sample buffer\<close>

declare fill.simps [simp del]

lemma slice_bounds_in_range:
  "0 \<le> a \<Longrightarrow> a \<le> b \<Longrightarrow> b \<le> int L \<Longrightarrow> slice_bounds L a b = (nat a, nat b)"
  by (simp add: slice_bounds_def Let_def)

lemma get_slice_take: "0 \<le> b \<Longrightarrow> get_slice xs 0 b = take (nat b) xs"
  by (auto simp: get_slice_def slice_bounds_def Let_def min_def max_def)

lemma get_slice_drop: "0 \<le> a \<Longrightarrow> a \<le> int (length xs) \<Longrightarrow> get_slice xs a (int (length xs)) = drop (nat a) xs"
  by (auto simp: get_slice_def slice_bounds_def Let_def min_def max_def)

lemma set_slice_in_range:
  assumes "0 \<le> a" "b \<le> int (length xs)" "int (length src) = b - a"
  shows "set_slice xs a b src = Inr (take (nat a) xs @ src @ drop (nat b) xs)"
proof -
  have ab: "a \<le> b" using assms by linarith
  have len: "length src = nat b - nat a" using assms ab by linarith
  show ?thesis using assms ab len by (simp add: set_slice_def slice_bounds_in_range)
qed

lemma fill_not_training:
  "\<not> training s \<Longrightarrow> fill s draws data = (s, Inl (AssertionError ''Must be in training mode to allow filling.''))"
  by (subst fill.simps) simp

lemma fill_room:
  "training s \<Longrightarrow> int (length data) \<le> capacity_left s \<Longrightarrow>
   fill s draws data =
     (case set_slice (cdf_data s) (size_b s) (size_b s + int (length data)) data of
        Inl e \<Rightarrow> (s, Inl e)
      | Inr vs \<Rightarrow> (s\<lparr>cdf_data := vs, size_b := size_b s + int (length data)\<rparr>, Inr ()))"
  by (subst fill.simps) (simp add: Let_def)

lemma fill_no_room:
  "training s \<Longrightarrow> capacity_left s \<le> 0 \<Longrightarrow> capacity_left s < int (length data) \<Longrightarrow>
   fill s draws data = replace_when_full s draws data"
  by (subst fill.simps) (auto simp add: Let_def replace_when_full_def min_def)

lemma fill_partial:
  "training s \<Longrightarrow> 0 < capacity_left s \<Longrightarrow> capacity_left s < int (length data) \<Longrightarrow>
   fill s draws data =
     (case set_slice (cdf_data s) (size_b s) (num_pit_samples s) (get_slice data 0 (capacity_left s)) of
        Inl e \<Rightarrow> (s, Inl e)
      | Inr vs \<Rightarrow> replace_when_full (s\<lparr>cdf_data := vs, size_b := size_b s + capacity_left s\<rparr>) draws
                       (get_slice data (capacity_left s) (int (length data))))"
  apply (subst fill.simps)
  apply (simp add: Let_def split: sum.splits)
  apply (intro allI impI)
  apply (subst fill_no_room)
  apply (auto simp: capacity_left_def get_slice_def slice_bounds_def Let_def)
  done

lemma length_foldl_update:
  "length (foldl (\<lambda>acc (i, v). acc[i := v]) xs ps) = length xs"
  by (induction ps arbitrary: xs) auto

lemma length_foldl_update1:
  "length (foldl (\<lambda>acc i. acc[i := w]) xs idx) = length xs"
  by (induction idx arbitrary: xs) auto

lemma length_index_put: "index_put xs idx src = Inr ys \<Longrightarrow> length ys = length xs"
  by (auto simp: index_put_def length_foldl_update length_foldl_update1 split: if_splits)

lemma foldl_update_frame:
  "i \<notin> fst ` set ps \<Longrightarrow> foldl (\<lambda>acc (i, v). acc[i := v]) xs ps ! i = xs ! i"
  by (induction ps arbitrary: xs) auto

lemma foldl_update_written:
  "distinct (map fst ps) \<Longrightarrow> (i, v) \<in> set ps \<Longrightarrow> i < length xs \<Longrightarrow>
   foldl (\<lambda>acc (i, v). acc[i := v]) xs ps ! i = v"
proof (induction ps arbitrary: xs)
  case Nil
  then show ?case by simp
next
  case (Cons p ps)
  show ?case
  proof (cases "p = (i, v)")
    case True
    then have "i \<notin> fst ` set ps" using Cons.prems(1) by auto
    then show ?thesis using True Cons.prems(3) by (simp add: foldl_update_frame)
  next
    case False
    then have "(i, v) \<in> set ps" using Cons.prems(2) by simp
    moreover have "distinct (map fst ps)" using Cons.prems(1) by simp
    ultimately show ?thesis using Cons.IH [of "xs[fst p := snd p]"] Cons.prems(3)
      by (simp add: case_prod_beta)
  qed
qed

lemma index_put_eq_len:
  "length src = length idx \<Longrightarrow>
   index_put xs idx src = Inr (foldl (\<lambda>acc (i, v). acc[i := v]) xs (zip idx src))"
  by (simp add: index_put_def)

lemma index_put_frame:
  assumes "index_put xs idx src = Inr ys" "i \<notin> set idx"
  shows "ys ! i = xs ! i"
proof (cases "length src = length idx")
  case True
  have "i \<notin> fst ` set (zip idx src)" using assms(2) by (auto dest: set_zip_leftD)
  then show ?thesis using assms(1) True by (auto simp: index_put_def foldl_update_frame)
next
  case False
  have "foldl (\<lambda>acc i. acc[i := w]) zs js ! i = zs ! i" if "i \<notin> set js" for w zs js
    using that by (induction js arbitrary: zs) auto
  then show ?thesis using assms False by (auto simp: index_put_def split: if_splits)
qed

lemma index_put_written:
  assumes "index_put xs idx src = Inr ys" "length src = length idx" "distinct idx"
    "j < length idx" "idx ! j < length xs"
  shows "ys ! (idx ! j) = src ! j"
proof -
  have ys: "ys = foldl (\<lambda>acc (i, v). acc[i := v]) xs (zip idx src)"
    using assms(1,2) by (simp add: index_put_def)
  have "(idx ! j, src ! j) \<in> set (zip idx src)"
    using assms(2,4) by (auto simp: set_zip)
  moreover have "distinct (map fst (zip idx src))" using assms(2,3) by simp
  ultimately show ?thesis unfolding ys using assms(5) by (simp add: foldl_update_written)
qed

lemma is_randperm_distinct: "is_randperm n p \<Longrightarrow> distinct p"
  by (simp add: is_randperm_def card_distinct)

lemma is_randperm_nth: "is_randperm n p \<Longrightarrow> j < n \<Longrightarrow> p ! j < n"
  by (metis atLeastLessThan_iff is_randperm_def nth_mem)

lemma replace_when_full_shape:
  "\<exists>vs. fst (replace_when_full s draws data) = s\<lparr>cdf_data := vs\<rparr> \<and> length vs = length (cdf_data s)"
proof (cases "index_put (cdf_data s) (get_slice (snd draws) 0 (min (int (length data)) (take_num_samples_when_full s))) (index_select data (fst draws))")
  case (Inl e)
  have "fst (replace_when_full s draws data) = s"
    using Inl by (simp add: replace_when_full_def Let_def)
  then have "fst (replace_when_full s draws data) = s\<lparr>cdf_data := cdf_data s\<rparr>" by simp
  then show ?thesis by blast
next
  case (Inr vs)
  have len: "length vs = length (cdf_data s)" using Inr by (rule length_index_put)
  have "fst (replace_when_full s draws data) = s \<or> fst (replace_when_full s draws data) = s\<lparr>cdf_data := vs\<rparr>"
    using Inr by (simp add: replace_when_full_def Let_def)
  then show ?thesis
  proof
    assume "fst (replace_when_full s draws data) = s"
    then have "fst (replace_when_full s draws data) = s\<lparr>cdf_data := cdf_data s\<rparr>" by simp
    then show ?thesis by blast
  next
    assume "fst (replace_when_full s draws data) = s\<lparr>cdf_data := vs\<rparr>"
    then show ?thesis using len by blast
  qed
qed

lemma fill_room_inv:
  assumes "training s" "buf_inv s" "int (length data) \<le> capacity_left s"
  shows "fill s draws data =
     (s\<lparr>cdf_data := take (nat (size_b s)) (cdf_data s) @ data @
                      drop (nat (size_b s + int (length data))) (cdf_data s),
        size_b := size_b s + int (length data)\<rparr>, Inr ())"
proof -
  have "set_slice (cdf_data s) (size_b s) (size_b s + int (length data)) data =
        Inr (take (nat (size_b s)) (cdf_data s) @ data @
             drop (nat (size_b s + int (length data))) (cdf_data s))"
    using assms by (intro set_slice_in_range) (auto simp: buf_inv_def capacity_left_def)
  then show ?thesis using assms by (simp add: fill_room)
qed

lemma fill_partial_inv:
  assumes "training s" "buf_inv s" "0 < capacity_left s" "capacity_left s < int (length data)"
  shows "fill s draws data =
     replace_when_full
       (s\<lparr>cdf_data := take (nat (size_b s)) (cdf_data s) @ take (nat (capacity_left s)) data,
          size_b := num_pit_samples s\<rparr>) draws (drop (nat (capacity_left s)) data)"
proof -
  have g1: "get_slice data 0 (capacity_left s) = take (nat (capacity_left s)) data"
    using assms by (simp add: get_slice_take)
  have g2: "get_slice data (capacity_left s) (int (length data)) = drop (nat (capacity_left s)) data"
    using assms by (simp add: get_slice_drop)
  have "set_slice (cdf_data s) (size_b s) (num_pit_samples s) (take (nat (capacity_left s)) data) =
        Inr (take (nat (size_b s)) (cdf_data s) @ take (nat (capacity_left s)) data @
             drop (nat (num_pit_samples s)) (cdf_data s))"
    using assms by (intro set_slice_in_range) (auto simp: buf_inv_def capacity_left_def)
  moreover have "nat (num_pit_samples s) = length (cdf_data s)"
    using assms(2) unfolding buf_inv_def by linarith
  then have "drop (nat (num_pit_samples s)) (cdf_data s) = []"
    by simp
  moreover have "size_b s + capacity_left s = num_pit_samples s"
    by (simp add: capacity_left_def)
  ultimately show ?thesis using assms by (simp add: fill_partial g1 g2)
qed

lemma replace_when_full_size: "size_b (fst (replace_when_full s draws data)) = size_b s"
  using replace_when_full_shape [of s draws data] by auto

lemma replace_when_full_length:
  "length (cdf_data (fst (replace_when_full s draws data))) = length (cdf_data s)"
  using replace_when_full_shape [of s draws data] by auto

lemma replace_when_full_config: "same_config s (fst (replace_when_full s draws data))"
  using replace_when_full_shape [of s draws data] by (auto simp: same_config_def)

lemma replace_when_full_disabled:
  "take_num_samples_when_full s = 0 \<Longrightarrow> replace_when_full s draws data = (s, Inr ())"
  by (simp add: replace_when_full_def)

lemma fill_cases:
  obtains (not_training) "\<not> training s"
  | (room) "training s" "int (length (data :: tensor)) \<le> capacity_left s"
  | (partial) "training s" "0 < capacity_left s" "capacity_left s < int (length data)"
  | (no_room) "training s" "capacity_left s \<le> 0" "capacity_left s < int (length data)"
  by linarith

lemma fill_config: "same_config s (fst (fill s draws data))"
proof (cases rule: fill_cases [where s = s and data = data])
  case not_training
  then show ?thesis by (simp add: fill_not_training same_config_def)
next
  case room
  then show ?thesis by (simp add: fill_room same_config_def split: sum.splits)
next
  case partial
  show ?thesis
  proof (cases "set_slice (cdf_data s) (size_b s) (num_pit_samples s) (get_slice data 0 (capacity_left s))")
    case (Inl e)
    then show ?thesis using partial by (simp add: fill_partial same_config_def)
  next
    case (Inr vs)
    let ?s1 = "s\<lparr>cdf_data := vs, size_b := size_b s + capacity_left s\<rparr>"
    have "same_config ?s1 (fst (replace_when_full ?s1 draws (get_slice data (capacity_left s) (int (length data)))))"
      by (rule replace_when_full_config)
    then show ?thesis using partial Inr by (simp add: fill_partial same_config_def)
  qed
next
  case no_room
  then show ?thesis by (simp add: fill_no_room replace_when_full_config)
qed

lemma fill_size:
  assumes "buf_inv s"
  shows "length (cdf_data (fst (fill s draws data))) = length (cdf_data s)"
    and "size_b s \<le> size_b (fst (fill s draws data))"
    and "size_b (fst (fill s draws data)) \<le> num_pit_samples s"
proof -
  have "length (cdf_data (fst (fill s draws data))) = length (cdf_data s) \<and>
        size_b s \<le> size_b (fst (fill s draws data)) \<and>
        size_b (fst (fill s draws data)) \<le> num_pit_samples s"
  proof (cases rule: fill_cases [where s = s and data = data])
    case not_training
    then show ?thesis using assms by (simp add: fill_not_training buf_inv_def)
  next
    case room
    have "nat (size_b s + int (length data)) \<le> length (cdf_data s)"
      using assms room(2) unfolding buf_inv_def capacity_left_def by linarith
    moreover have "nat (size_b s) \<le> length (cdf_data s)"
      using assms unfolding buf_inv_def by linarith
    moreover have "nat (size_b s + int (length data)) = nat (size_b s) + length data"
      using assms unfolding buf_inv_def by linarith
    ultimately show ?thesis using assms room
      by (simp add: fill_room_inv buf_inv_def capacity_left_def)
  next
    case partial
    have "nat (size_b s) + nat (capacity_left s) = length (cdf_data s)"
      using assms partial unfolding buf_inv_def capacity_left_def by linarith
    moreover have "nat (size_b s) \<le> length (cdf_data s)"
      using assms unfolding buf_inv_def by linarith
    moreover have "nat (capacity_left s) \<le> length data"
      using partial by linarith
    ultimately show ?thesis using assms partial
      by (simp add: fill_partial_inv replace_when_full_size replace_when_full_length buf_inv_def)
  next
    case no_room
    then show ?thesis using assms
      by (simp add: fill_no_room replace_when_full_size replace_when_full_length buf_inv_def)
  qed
  then show "length (cdf_data (fst (fill s draws data))) = length (cdf_data s)"
    and "size_b s \<le> size_b (fst (fill s draws data))"
    and "size_b (fst (fill s draws data)) \<le> num_pit_samples s" by simp_all
qed

lemma fill_inv: "buf_inv s \<Longrightarrow> buf_inv (fst (fill s draws data))"
  using fill_size [of s draws data] fill_config [of s draws data]
  by (simp add: buf_inv_def same_config_def)

lemma fill_when_full:
  assumes "buf_inv s" "size_b s = num_pit_samples s"
  shows "size_b (fst (fill s draws data)) = size_b s"
    and "take_num_samples_when_full s = 0 \<Longrightarrow> cdf_data (fst (fill s draws data)) = cdf_data s"
proof -
  have cap: "capacity_left s = 0" using assms(2) by (simp add: capacity_left_def)
  have "size_b (fst (fill s draws data)) = size_b s \<and>
        (take_num_samples_when_full s = 0 \<longrightarrow> cdf_data (fst (fill s draws data)) = cdf_data s)"
  proof (cases rule: fill_cases [where s = s and data = data])
    case not_training
    then show ?thesis by (simp add: fill_not_training)
  next
    case room
    then have "data = []" using cap by simp
    moreover have "nat (size_b s) = length (cdf_data s)"
      using assms unfolding buf_inv_def by linarith
    ultimately show ?thesis using assms room by (simp add: fill_room_inv)
  next
    case partial
    then show ?thesis using cap by simp
  next
    case no_room
    then show ?thesis
      by (auto simp: fill_no_room replace_when_full_size replace_when_full_disabled)
  qed
  then show "size_b (fst (fill s draws data)) = size_b s"
    and "take_num_samples_when_full s = 0 \<Longrightarrow> cdf_data (fst (fill s draws data)) = cdf_data s"
    by simp_all
qed

lemma forward_state:
  "fst (forward erf erfinv s draws x) = (if training s then fst (fill s draws x) else s)"
  by (simp add: forward_def Let_def split: prod.splits sum.splits)

lemma init_inv:
  assumes "init n_features n_pit_samples n_take normal_bt trainable mem_ok rand_bw = Inr s"
  shows "buf_inv s" and "0 < num_pit_samples s" and "0 \<le> take_num_samples_when_full s"
    and "size_b s = 0" and "training s" and "num_pit_samples s = n_pit_samples"
  using assms by (auto simp: init_def buf_inv_def split: if_splits option.splits)

lemma reachable_inv:
  "reachable s \<Longrightarrow> buf_inv s \<and> 0 < num_pit_samples s \<and> 0 \<le> take_num_samples_when_full s"
proof (induction rule: reachable.induct)
  case (reach_init n_features n_pit_samples n_take normal_bt trainable mem_ok rand_bw s)
  show ?case
    using init_inv(1) [OF reach_init] init_inv(2) [OF reach_init] init_inv(3) [OF reach_init]
    by simp
next
  case (reach_fill s draws data)
  then show ?case using fill_inv [of s draws data] fill_config [of s draws data]
    by (simp add: same_config_def)
next
  case (reach_forward s erf erfinv draws x)
  then show ?case using fill_inv [of s draws x] fill_config [of s draws x]
    by (simp add: forward_state same_config_def)
next
  case (reach_mode s b)
  then show ?case by (simp add: buf_inv_def)
qed

lemma fill_all_step:
  "fst (fill_all s (c # cs)) =
     (if isl (snd (fill s (fst c) (snd c))) then fst (fill s (fst c) (snd c))
      else fst (fill_all (fst (fill s (fst c) (snd c))) cs))"
  by (simp split: prod.splits sum.splits)

lemma fill_all_size:
  "buf_inv s \<Longrightarrow>
   buf_inv (fst (fill_all s cs)) \<and> same_config s (fst (fill_all s cs)) \<and>
   size_b s \<le> size_b (fst (fill_all s cs)) \<and>
   (size_b s = num_pit_samples s \<longrightarrow> size_b (fst (fill_all s cs)) = size_b s) \<and>
   (size_b s = num_pit_samples s \<and> take_num_samples_when_full s = 0 \<longrightarrow>
      cdf_data (fst (fill_all s cs)) = cdf_data s)"
proof (induction cs arbitrary: s)
  case Nil
  then show ?case by (simp add: same_config_def)
next
  case (Cons c cs)
  let ?s1 = "fst (fill s (fst c) (snd c))"
  have inv1: "buf_inv ?s1" using Cons.prems by (rule fill_inv)
  have cfg1: "same_config s ?s1" by (rule fill_config)
  have mono1: "size_b s \<le> size_b ?s1" using Cons.prems by (rule fill_size(2))
  have full1: "size_b s = num_pit_samples s \<Longrightarrow> size_b ?s1 = size_b s"
    using Cons.prems by (rule fill_when_full(1))
  have same1: "size_b s = num_pit_samples s \<Longrightarrow> take_num_samples_when_full s = 0 \<Longrightarrow>
      cdf_data ?s1 = cdf_data s"
    using Cons.prems by (rule fill_when_full(2))
  show ?case
  proof (cases "isl (snd (fill s (fst c) (snd c)))")
    case True
    then have "fst (fill_all s (c # cs)) = ?s1" by (simp only: fill_all_step if_True)
    then show ?thesis using inv1 cfg1 mono1 full1 same1 by simp
  next
    case False
    then have eq: "fst (fill_all s (c # cs)) = fst (fill_all ?s1 cs)"
      by (simp only: fill_all_step if_False)
    note IH = Cons.IH [OF inv1]
    show ?thesis unfolding eq using IH cfg1 mono1 full1 same1
      by (auto simp: same_config_def)
  qed
qed

text \<open>
  Claim C6. In every reachable state the fill level lies between 0 and the capacity. Over any
  sequence of \<open>fill\<close> calls the capacity stays what it is and the fill level does not
  decrease; once the buffer is full the fill level never changes again, and with
  \<^verbatim>\<open>take_num_samples_when_full = 0\<close> neither do the stored values.
\<close>

theorem size_bounded_monotone_frozen:
  "reachable s \<Longrightarrow>
     0 \<le> size_b s \<and> size_b s \<le> num_pit_samples s \<and>
     num_pit_samples (fst (fill_all s calls)) = num_pit_samples s \<and>
     size_b s \<le> size_b (fst (fill_all s calls)) \<and>
     (size_b s = num_pit_samples s \<longrightarrow> size_b (fst (fill_all s calls)) = size_b s) \<and>
     (size_b s = num_pit_samples s \<and> take_num_samples_when_full s = 0 \<longrightarrow>
        cdf_data (fst (fill_all s calls)) = cdf_data s)"
proof -
  assume "reachable s"
  then have inv: "buf_inv s" using reachable_inv by blast
  then show ?thesis using fill_all_size [OF inv, of calls]
    by (simp add: buf_inv_def same_config_def)
qed

lemma demo_simps [simp]:
  "num_pit_samples (demo cap n_take sz vals) = cap"
  "take_num_samples_when_full (demo cap n_take sz vals) = n_take"
  "num_features (demo cap n_take sz vals) = 1"
  "trainable_bandwidths (demo cap n_take sz vals) = False"
  "bw (demo cap n_take sz vals) = [NaN]"
  "size_b (demo cap n_take sz vals) = sz"
  "cdf_data (demo cap n_take sz vals) = vals"
  "normal_backtransform (demo cap n_take sz vals) = False"
  "training (demo cap n_take sz vals) = True"
  "demo cap n_take sz vals\<lparr>cdf_data := vs\<rparr> = demo cap n_take sz vs"
  "demo cap n_take sz vals\<lparr>size_b := n\<rparr> = demo cap n_take n vals"
  by (simp_all add: demo_def)

lemma demo_init: "0 < cap \<Longrightarrow> cap < 2 ^ 63 \<Longrightarrow> 0 \<le> n_take \<Longrightarrow>
  init 1 cap n_take False False enough_memory rbw = Inr (demo cap n_take 0 (replicate (nat cap) [NaN]))"
  by (simp add: init_def torch_alloc_def int64_def enough_memory_def demo_def)

lemma demo_reachable_fresh: "reachable (demo 2 0 0 [[NaN], [NaN]])"
  using reach_init [OF demo_init [of 2 0 "[]"]] by (simp add: numeral_2_eq_2)

lemma demo_fill_to_full:
  "fill (demo 2 0 0 [[NaN], [NaN]]) ([], []) [[Fin 1], [Fin 2]] = (demo 2 0 2 [[Fin 1], [Fin 2]], Inr ())"
  by (simp add: fill_room_inv buf_inv_def capacity_left_def)

lemma demo_reachable_full: "reachable (demo 2 0 2 [[Fin 1], [Fin 2]])"
  using reach_fill [OF demo_reachable_fresh, of "([], [])" "[[Fin 1], [Fin 2]]"]
  by (simp add: demo_fill_to_full)

theorem size_bounded_monotone_frozen_witness:
  "reachable (demo 2 0 2 [[Fin 1], [Fin 2]]) \<and>
   size_b (fst (fill_all (demo 2 0 2 [[Fin 1], [Fin 2]]) [(([0], [1, 0]), [[Fin 3]]), (([], []), [])])) = 2 \<and>
   cdf_data (fst (fill_all (demo 2 0 2 [[Fin 1], [Fin 2]]) [(([0], [1, 0]), [[Fin 3]]), (([], []), [])])) = [[Fin 1], [Fin 2]]"
  using size_bounded_monotone_frozen [OF demo_reachable_full, of "[(([0], [1, 0]), [[Fin 3]]), (([], []), [])]"]
    demo_reachable_full
  by simp




lemma fill_all_room:
  "buf_inv s \<Longrightarrow> training s \<Longrightarrow>
   size_b s + int (length (concat (map snd calls))) \<le> num_pit_samples s \<Longrightarrow>
   snd (fill_all s calls) = Inr () \<and>
   size_b (fst (fill_all s calls)) = size_b s + int (length (concat (map snd calls))) \<and>
   take (nat (size_b (fst (fill_all s calls)))) (cdf_data (fst (fill_all s calls))) =
     take (nat (size_b s)) (cdf_data s) @ concat (map snd calls)"
proof (induction calls arbitrary: s)
  case Nil
  then show ?case by simp
next
  case (Cons c cs)
  let ?n = "int (length (snd c))"
  let ?vs = "take (nat (size_b s)) (cdf_data s) @ snd c @ drop (nat (size_b s + ?n)) (cdf_data s)"
  let ?s1 = "s\<lparr>cdf_data := ?vs, size_b := size_b s + ?n\<rparr>"
  have room: "?n \<le> capacity_left s"
    using Cons.prems(3) by (simp add: capacity_left_def)
  have f: "fill s (fst c) (snd c) = (?s1, Inr ())"
    using Cons.prems(2,1) room by (rule fill_room_inv)
  have inv1: "buf_inv ?s1" using fill_inv [OF Cons.prems(1), of "fst c" "snd c"] by (simp add: f)
  have tr1: "training ?s1" using Cons.prems(2) by simp
  have le1: "size_b ?s1 + int (length (concat (map snd cs))) \<le> num_pit_samples ?s1"
    using Cons.prems(3) by simp
  let ?s2 = "fst (fill_all ?s1 cs)"
  have IH1: "snd (fill_all ?s1 cs) = Inr ()"
    and IH2: "size_b ?s2 = size_b ?s1 + int (length (concat (map snd cs)))"
    and IH3: "take (nat (size_b ?s2)) (cdf_data ?s2) =
              take (nat (size_b ?s1)) (cdf_data ?s1) @ concat (map snd cs)"
    using Cons.IH [OF inv1 tr1 le1] by blast+
  have len: "nat (size_b s) \<le> length (cdf_data s)"
    using Cons.prems(1) unfolding buf_inv_def by linarith
  have nn: "nat (size_b s + ?n) = nat (size_b s) + length (snd c)"
    using Cons.prems(1) unfolding buf_inv_def by linarith
  have pre: "take (nat (size_b ?s1)) (cdf_data ?s1) = take (nat (size_b s)) (cdf_data s) @ snd c"
    using len by (simp add: nn)
  have step: "fill_all s (c # cs) = fill_all ?s1 cs" by (simp add: f)
  have c1: "snd (fill_all s (c # cs)) = Inr ()" unfolding step by (rule IH1)
  have c2: "size_b (fst (fill_all s (c # cs))) = size_b s + int (length (concat (map snd (c # cs))))"
    unfolding step IH2 by simp
  have c3: "take (nat (size_b (fst (fill_all s (c # cs))))) (cdf_data (fst (fill_all s (c # cs)))) =
            take (nat (size_b s)) (cdf_data s) @ concat (map snd (c # cs))"
    unfolding step IH3 pre by simp
  show ?case using c1 c2 c3 by blast
qed

text \<open>
  Claim C2. On a freshly constructed module, a sequence of \<open>fill\<close> calls whose batches have at most \<^verbatim>\<open>num_pit_samples\<close> rows in total raises nothing; afterwards the fill level is the total number of rows, and the first rows of the buffer, up to the fill level, are the rows of the batches in the order of their arrival.
\<close>

theorem fill_keeps_arrival_order:
  assumes "init n_features n_pit_samples n_take normal_bt trainable mem_ok rand_bw = Inr s0"
    and "int (length (concat (map snd calls))) \<le> n_pit_samples"
  shows "snd (fill_all s0 calls) = Inr () \<and>
         size_b (fst (fill_all s0 calls)) = int (length (concat (map snd calls))) \<and>
         take (nat (size_b (fst (fill_all s0 calls)))) (cdf_data (fst (fill_all s0 calls))) =
           concat (map snd calls)"
proof -
  have i: "buf_inv s0" "training s0" "size_b s0 = 0" "num_pit_samples s0 = n_pit_samples"
    using init_inv [OF assms(1)] by simp_all
  have le: "size_b s0 + int (length (concat (map snd calls))) \<le> num_pit_samples s0"
    using assms(2) i by simp
  have r1: "snd (fill_all s0 calls) = Inr ()"
    and r2: "size_b (fst (fill_all s0 calls)) = size_b s0 + int (length (concat (map snd calls)))"
    and r3: "take (nat (size_b (fst (fill_all s0 calls)))) (cdf_data (fst (fill_all s0 calls))) =
             take (nat (size_b s0)) (cdf_data s0) @ concat (map snd calls)"
    using fill_all_room [OF i(1,2) le] by blast+
  have "size_b (fst (fill_all s0 calls)) = int (length (concat (map snd calls)))"
    unfolding r2 using i(3) by simp
  moreover have "take (nat (size_b (fst (fill_all s0 calls)))) (cdf_data (fst (fill_all s0 calls))) =
                 concat (map snd calls)"
    unfolding r3 using i(3) by simp
  ultimately show ?thesis using r1 by blast
qed

theorem fill_keeps_arrival_order_witness:
  "init 1 3 0 False False enough_memory [] = Inr (demo 3 0 0 [[NaN], [NaN], [NaN]]) \<and>
   fill_all (demo 3 0 0 [[NaN], [NaN], [NaN]]) [(([], []), [[Fin 7]]), (([], []), [[Fin 8], [Fin 9]])] =
     (demo 3 0 3 [[Fin 7], [Fin 8], [Fin 9]], Inr ())"
proof -
  have i: "init 1 3 0 False False enough_memory [] = Inr (demo 3 0 0 [[NaN], [NaN], [NaN]])"
    by (simp add: demo_init numeral_3_eq_3)
  have "fill_all (demo 3 0 0 [[NaN], [NaN], [NaN]]) [(([], []), [[Fin 7]]), (([], []), [[Fin 8], [Fin 9]])] =
     (demo 3 0 3 [[Fin 7], [Fin 8], [Fin 9]], Inr ())"
    by (simp add: fill_room_inv buf_inv_def capacity_left_def)
  then show ?thesis
    using fill_keeps_arrival_order [OF i, of "[(([], []), [[Fin 7]]), (([], []), [[Fin 8], [Fin 9]])]"] i
    by simp
qed

lemma is_randperm_length: "is_randperm n p \<Longrightarrow> length p = n"
  by (simp add: is_randperm_def)

lemma is_randperm_set: "is_randperm n p \<Longrightarrow> set p = {0..<n}"
  by (simp add: is_randperm_def)

lemma fill_full_nonempty:
  assumes "training s" "size_b s = num_pit_samples s" "data \<noteq> []"
  shows "fill s draws data = replace_when_full s draws data"
  using assms by (intro fill_no_room) (simp_all add: capacity_left_def)

lemma fill_full_empty:
  assumes "training s" "buf_inv s" "size_b s = num_pit_samples s"
  shows "fill s draws [] = (s, Inr ())"
proof -
  have "nat (size_b s) = length (cdf_data s)"
    using assms(2,3) unfolding buf_inv_def by linarith
  then show ?thesis using assms by (simp add: fill_room_inv capacity_left_def)
qed

lemma replace_when_full_eq:
  assumes "0 < take_num_samples_when_full s" "data \<noteq> []"
  shows "replace_when_full s (pb, pv) data =
     (case index_put (cdf_data s)
              (take (nat (min (int (length data)) (take_num_samples_when_full s))) pv)
              (index_select data pb) of
        Inl e \<Rightarrow> (s, Inl e)
      | Inr vs \<Rightarrow> (s\<lparr>cdf_data := vs\<rparr>, Inr ()))"
proof -
  let ?k = "min (int (length data)) (take_num_samples_when_full s)"
  have k: "0 < ?k" using assms by simp
  have nk: "\<not> ?k < 0" and k0: "0 \<le> ?k" using k by linarith+
  have t0: "take_num_samples_when_full s \<noteq> 0" using assms(1) by simp
  have g: "get_slice pv 0 ?k = take (nat ?k) pv" using k0 by (rule get_slice_take)
  show ?thesis unfolding replace_when_full_def Let_def fst_conv snd_conv g
    by (simp only: nk t0 if_False)
qed

text \<open>
  Claim C5, amended. Let a reachable module in training mode be full, with \<^verbatim>\<open>take_num_samples_when_full > 0\<close>, let \<open>k\<close> be the minimum of the batch's row count and \<^verbatim>\<open>take_num_samples_when_full\<close>, and let \<open>k\<close> be at most the capacity. Then for all outcomes of the two random permutations \<open>fill\<close> succeeds, the fill level and the number of rows stay, the first \<open>k\<close> entries of the second permutation are \<open>k\<close> distinct rows of the buffer, each of them holds the batch row that the first permutation assigns to it, and every other row of the buffer is unchanged.
\<close>

theorem replacement_overwrites_k_rows:
  assumes "reachable s" "training s" "size_b s = num_pit_samples s"
    and "0 < take_num_samples_when_full s"
    and "k = nat (min (int (length data)) (take_num_samples_when_full s))"
    and "int k \<le> num_pit_samples s"
    and "is_randperm k pb" "is_randperm (nat (num_pit_samples s)) pv"
  shows "snd (fill s (pb, pv) data) = Inr () \<and>
         size_b (fst (fill s (pb, pv) data)) = size_b s \<and>
         length (cdf_data (fst (fill s (pb, pv) data))) = length (cdf_data s) \<and>
         length (take k pv) = k \<and> distinct (take k pv) \<and>
         (\<forall>i \<in> set (take k pv). i < length (cdf_data s)) \<and>
         (\<forall>j < k. cdf_data (fst (fill s (pb, pv) data)) ! (take k pv ! j) = data ! (pb ! j)) \<and>
         (\<forall>i. i \<notin> set (take k pv) \<longrightarrow>
              cdf_data (fst (fill s (pb, pv) data)) ! i = cdf_data s ! i)"
proof -
  have inv: "buf_inv s" using assms(1) reachable_inv by blast
  have cap: "nat (num_pit_samples s) = length (cdf_data s)"
    using inv unfolding buf_inv_def by linarith
  have lpv: "length pv = length (cdf_data s)" using assms(8) cap by (simp add: is_randperm_def)
  have kle: "k \<le> length pv" using assms(6) lpv cap by linarith
  have len_slots: "length (take k pv) = k" using kle by simp
  have dist: "distinct (take k pv)" using assms(8) by (simp add: is_randperm_distinct)
  have inb: "\<forall>i \<in> set (take k pv). i < length (cdf_data s)"
  proof
    fix i assume "i \<in> set (take k pv)"
    then have "i \<in> set pv" by (rule in_set_takeD)
    then show "i < length (cdf_data s)" using assms(8) cap by (simp add: is_randperm_def)
  qed
  show ?thesis
  proof (cases "data = []")
    case True
    then have "k = 0" using assms(5) by simp
    moreover have "fill s (pb, pv) data = (s, Inr ())"
      using True assms(2,3) inv by (simp add: fill_full_empty)
    ultimately show ?thesis by simp
  next
    case False
    have lsrc: "length (index_select data pb) = length (take k pv)"
      using assms(7) len_slots by (simp add: index_select_def is_randperm_def)
    define vs where "vs = foldl (\<lambda>acc (i, v). acc[i := v]) (cdf_data s) (zip (take k pv) (index_select data pb))"
    have ip: "index_put (cdf_data s) (take k pv) (index_select data pb) = Inr vs"
      unfolding vs_def using lsrc by (rule index_put_eq_len)
    have f: "fill s (pb, pv) data = (s\<lparr>cdf_data := vs\<rparr>, Inr ())"
      using False assms(2,3,4) ip
      by (simp add: fill_full_nonempty replace_when_full_eq assms(5) [symmetric])
    have w: "\<forall>j < k. vs ! (take k pv ! j) = data ! (pb ! j)"
    proof (intro allI impI)
      fix j assume j: "j < k"
      then have "take k pv ! j < length (cdf_data s)" using inb len_slots by (metis nth_mem)
      then have "vs ! (take k pv ! j) = index_select data pb ! j"
        using index_put_written [OF ip lsrc dist] j len_slots by simp
      moreover have "j < length pb" using j assms(7) by (simp add: is_randperm_def)
      ultimately show "vs ! (take k pv ! j) = data ! (pb ! j)" by (simp add: index_select_def)
    qed
    have fr: "\<forall>i. i \<notin> set (take k pv) \<longrightarrow> vs ! i = cdf_data s ! i"
      using index_put_frame [OF ip] by blast
    have lvs: "length vs = length (cdf_data s)" using ip by (rule length_index_put)
    show ?thesis unfolding f using w fr lvs len_slots dist inb by simp
  qed
qed

lemma demo_reachable:
  assumes "rows \<noteq> []" "0 \<le> n_take" "int (length rows) < 2 ^ 63"
  shows "reachable (demo (int (length rows)) n_take (int (length rows)) rows)"
proof -
  let ?cap = "int (length rows)"
  let ?s0 = "demo ?cap n_take 0 (replicate (length rows) [NaN])"
  have "init 1 ?cap n_take False False enough_memory [] = Inr ?s0"
    using assms demo_init [of ?cap n_take "[]"] by simp
  then have r0: "reachable ?s0" by (rule reach_init)
  have "fill ?s0 ([], []) rows = (demo ?cap n_take ?cap rows, Inr ())"
    by (simp add: fill_room_inv buf_inv_def capacity_left_def)
  then show ?thesis using reach_fill [OF r0, of "([], [])" rows] by simp
qed

lemma is_randperm_examples [simp]:
  "is_randperm (Suc 0) [0]" "is_randperm 2 [0, Suc 0]" "is_randperm 2 [Suc 0, 0]"
  by (auto simp: is_randperm_def)

theorem replacement_overwrites_k_rows_witness:
  "reachable (demo 2 1 2 [[Fin 1], [Fin 2]]) \<and> is_randperm 1 [0] \<and> is_randperm 2 [1, 0] \<and>
   snd (fill (demo 2 1 2 [[Fin 1], [Fin 2]]) ([0], [1, 0]) [[Fin 3], [Fin 4], [Fin 5]]) = Inr () \<and>
   cdf_data (fst (fill (demo 2 1 2 [[Fin 1], [Fin 2]]) ([0], [1, 0]) [[Fin 3], [Fin 4], [Fin 5]])) ! 1 = [Fin 3] \<and>
   cdf_data (fst (fill (demo 2 1 2 [[Fin 1], [Fin 2]]) ([0], [1, 0]) [[Fin 3], [Fin 4], [Fin 5]])) ! 0 = [Fin 1]"
proof -
  have r: "reachable (demo 2 1 2 [[Fin 1], [Fin 2]])"
    using demo_reachable [of "[[Fin 1], [Fin 2]]" 1] by simp
  have p2: "is_randperm (nat (num_pit_samples (demo 2 1 2 [[Fin 1], [Fin 2]]))) [1, 0]"
    by simp
  show ?thesis
    using replacement_overwrites_k_rows [OF r _ _ _ _ _ _ p2,
        of 1 "[[Fin 3], [Fin 4], [Fin 5]]" "[0]"] r
    by simp
qed

text \<open>
  Claim C5, as stated, fails when \<open>min(n, take_num_samples_when_full)\<close> exceeds the capacity: on a full buffer of one row, with \<^verbatim>\<open>take_num_samples_when_full = 2\<close> and a batch of two rows, \<open>fill\<close> raises and no row is overwritten (two rows could not be).
\<close>

theorem replacement_beyond_capacity_fails:
  "reachable (demo 1 2 1 [[Fin 1]]) \<and> is_randperm 2 [0, 1] \<and> is_randperm 1 [0] \<and>
   fill (demo 1 2 1 [[Fin 1]]) ([0, 1], [0]) [[Fin 3], [Fin 4]] =
     (demo 1 2 1 [[Fin 1]], Inl (RuntimeError ''shape mismatch''))"
proof -
  have r: "reachable (demo 1 2 1 [[Fin 1]])"
    using demo_reachable [of "[[Fin 1]]" 2] by simp
  have "fill (demo 1 2 1 [[Fin 1]]) ([0, 1], [0]) [[Fin 3], [Fin 4]] =
     (demo 1 2 1 [[Fin 1]], Inl (RuntimeError ''shape mismatch''))"
    by (simp add: fill_full_nonempty replace_when_full_eq index_put_def index_select_def)
  then show ?thesis using r by simp
qed

text \<open>
  Claim C10. On a reachable full module in training mode with \<^verbatim>\<open>take_num_samples_when_full > 0\<close>, let \<open>k\<close> be the minimum of the batch's row count and \<^verbatim>\<open>take_num_samples_when_full\<close>. If \<open>fill\<close> returns without an exception then \<open>k\<close> is at most the capacity. If \<open>k\<close> exceeds the capacity then the indexed assignment has \<open>k\<close> source rows for as many distinct destination rows as the capacity, raises a shape mismatch, and leaves the module as it was.
\<close>

theorem fill_full_needs_capacity:
  assumes "reachable s" "training s" "size_b s = num_pit_samples s"
    and "0 < take_num_samples_when_full s"
    and "k = min (int (length data)) (take_num_samples_when_full s)"
    and "is_randperm (nat k) pb" "is_randperm (nat (num_pit_samples s)) pv"
  shows "(snd (fill s (pb, pv) data) = Inr () \<longrightarrow> k \<le> num_pit_samples s) \<and>
         (num_pit_samples s < k \<longrightarrow>
            fill s (pb, pv) data = (s, Inl (RuntimeError ''shape mismatch'')) \<and>
            length (index_select data pb) = nat k \<and>
            length (get_slice pv 0 k) = nat (num_pit_samples s) \<and>
            distinct (get_slice pv 0 k))"
proof -
  have pos: "0 < num_pit_samples s" using assms(1) reachable_inv by blast
  have big: "fill s (pb, pv) data = (s, Inl (RuntimeError ''shape mismatch'')) \<and>
            length (index_select data pb) = nat k \<and>
            length (get_slice pv 0 k) = nat (num_pit_samples s) \<and>
            distinct (get_slice pv 0 k)" if gt: "num_pit_samples s < k"
  proof -
    have ne: "data \<noteq> []" using gt pos assms(5) by auto
    have k0: "0 \<le> k" using gt pos by linarith
    have lpv: "length pv = nat (num_pit_samples s)" using assms(7) by (rule is_randperm_length)
    have g: "get_slice pv 0 k = pv" using k0 gt lpv by (simp add: get_slice_take)
    have lsrc: "length (index_select data pb) = nat k"
      using assms(6) by (simp add: index_select_def is_randperm_length)
    have ne1: "length (index_select data pb) \<noteq> length pv" using lsrc lpv gt pos by linarith
    have ne2: "length (index_select data pb) \<noteq> 1" using lsrc gt pos by linarith
    have ip: "index_put (cdf_data s) pv (index_select data pb) = Inl (RuntimeError ''shape mismatch'')"
      using ne1 ne2 by (simp add: index_put_def)
    have "take (nat k) pv = pv" using g k0 by (simp add: get_slice_take)
    then have "fill s (pb, pv) data = (s, Inl (RuntimeError ''shape mismatch''))"
      using ne assms(2,3,4) ip
      by (simp add: fill_full_nonempty replace_when_full_eq assms(5) [symmetric])
    moreover have "distinct pv" using assms(7) by (rule is_randperm_distinct)
    ultimately show ?thesis using lsrc lpv g by simp
  qed
  have "k \<le> num_pit_samples s" if ok: "snd (fill s (pb, pv) data) = Inr ()"
  proof (rule ccontr)
    assume "\<not> k \<le> num_pit_samples s"
    then have "num_pit_samples s < k" by simp
    then have "snd (fill s (pb, pv) data) = Inl (RuntimeError ''shape mismatch'')"
      using big by simp
    then show False using ok by simp
  qed
  then show ?thesis using big by blast
qed

theorem fill_full_needs_capacity_witness:
  "reachable (demo 1 3 1 [[Fin 1]]) \<and> is_randperm 2 [1, 0] \<and> is_randperm 1 [0] \<and>
   fill (demo 1 3 1 [[Fin 1]]) ([1, 0], [0]) [[Fin 3], [Fin 4]] =
     (demo 1 3 1 [[Fin 1]], Inl (RuntimeError ''shape mismatch''))"
proof -
  have r: "reachable (demo 1 3 1 [[Fin 1]])"
    using demo_reachable [of "[[Fin 1]]" 3] by simp
  have p1: "is_randperm (nat (num_pit_samples (demo 1 3 1 [[Fin 1]]))) [0]"
    by simp
  have p2: "is_randperm (nat 2) [1, 0]"
    by simp
  show ?thesis
    using fill_full_needs_capacity [OF r _ _ _ _ p2 p1, of "[[Fin 3], [Fin 4]]"] r
    by simp
qed

text \<open>
  Claim C4, where the code departs from it. On a full buffer, with \<open>k\<close> the minimum of the batch's row count and \<^verbatim>\<open>take_num_samples_when_full\<close>, the first permutation ranges over \<open>0, ..., k-1\<close>, so only the first \<open>k\<close> rows of the batch can be written: \<open>fill\<close> on the batch is \<open>fill\<close> on its first \<open>k\<close> rows, and the rows after them have no influence on the buffer.
\<close>

theorem fill_full_ignores_batch_tail:
  assumes "training s" "size_b s = num_pit_samples s"
    and "0 < take_num_samples_when_full s"
    and "k = nat (min (int (length data)) (take_num_samples_when_full s))"
    and "is_randperm k pb"
  shows "fill s (pb, pv) data = fill s (pb, pv) (take k data)"
proof (cases "data = []")
  case True
  then show ?thesis by simp
next
  case False
  have kpos: "0 < k" using False assms(3,4) by simp
  have kle: "k \<le> length data" using assms(4) by simp
  have ne: "take k data \<noteq> []" using kpos False by (cases data) auto
  have k': "nat (min (int (length (take k data))) (take_num_samples_when_full s)) = k"
    using kle assms(3,4) by simp
  have "index_select (take k data) pb = index_select data pb"
    using assms(5) by (simp add: index_select_def is_randperm_def)
  then show ?thesis using False ne assms(1,2,3) k'
    by (simp add: fill_full_nonempty replace_when_full_eq assms(4) [symmetric])
qed

theorem fill_full_ignores_batch_tail_witness:
  "is_randperm 1 [0] \<and>
   fill (demo 2 1 2 [[Fin 1], [Fin 2]]) ([0], [1, 0]) [[Fin 3], [Fin 4], [Fin 5]] =
   fill (demo 2 1 2 [[Fin 1], [Fin 2]]) ([0], [1, 0]) [[Fin 3]] \<and>
   fill (demo 2 1 2 [[Fin 1], [Fin 2]]) ([0], [1, 0]) [[Fin 3]] = (demo 2 1 2 [[Fin 1], [Fin 3]], Inr ())"
proof -
  have "fill (demo 2 1 2 [[Fin 1], [Fin 2]]) ([0], [1, 0]) [[Fin 3]] = (demo 2 1 2 [[Fin 1], [Fin 3]], Inr ())"
    by (simp add: fill_full_nonempty replace_when_full_eq index_put_def index_select_def)
  then show ?thesis
    using fill_full_ignores_batch_tail [of "demo 2 1 2 [[Fin 1], [Fin 2]]" 1 "[[Fin 3], [Fin 4], [Fin 5]]" "[0]" "[1, 0]"]
    by simp
qed


section \<open>Properties of the transform\<close>

lemma forward_eq:
  "forward erf erfinv s draws x =
     (case (if training s then fill s draws x
            else if size_b s > 0 then (s, Inr ())
            else (s, Inl (AssertionError
                   ''Cannot compute forward pass without sample for the integral transform.''))) of
        (s1, Inl e) \<Rightarrow> (s1, Inl e)
      | (s1, Inr u) \<Rightarrow> forward_tail erf erfinv s1 x)"
  unfolding forward_def forward_tail_def Let_def by (rule refl)

lemma forward_tail_state: "fst (forward_tail erf erfinv s1 x) = s1"
  by (simp add: forward_tail_def Let_def split: sum.splits)

lemma vmap_error: "vmap f xs = Inl e \<Longrightarrow> \<exists>x \<in> set xs. f x = Inl e"
  by (induction xs) (auto split: sum.splits)

lemma quantile_error:
  "quantile input q = Inl e \<Longrightarrow> e = RuntimeError ''quantile() input tensor must be non-empty''"
  by (auto simp: quantile_def Let_def split: if_splits)

lemma make_cdf_bw_error:
  "make_cdf_bw s data b = Inl e \<Longrightarrow> e = RuntimeError ''quantile() input tensor must be non-empty''"
  by (auto simp: make_cdf_bw_def Let_def split: if_splits sum.splits dest: quantile_error)

lemma process_merged_error:
  assumes "process_merged erf s col b = Inl e"
  shows "e = RuntimeError ''quantile() input tensor must be non-empty'' \<or> e = ZeroDivisionError"
proof (cases "make_cdf_bw s (get_slice col 0 (size_b s)) b")
  case (Inl e')
  then show ?thesis using assms make_cdf_bw_error [OF Inl]
    by (simp add: process_merged_def make_cdf_def Let_def)
next
  case (Inr b')
  then obtain q where "q \<in> set (get_slice col (size_b s) (size_b s + int (length col)))"
    and "(if length (get_slice col 0 (size_b s)) = 0 then Inl ZeroDivisionError
          else Inr (fmul (Fin (1.0 / real (length (get_slice col 0 (size_b s)))))
                 (fsum (map (\<lambda>d. standard_normal_cdf erf (fdiv (fsub q d) b')) (get_slice col 0 (size_b s)))))) = Inl e"
    using assms vmap_error
    by (fastforce simp: process_merged_def make_cdf_def Let_def)
  then show ?thesis by (simp split: if_splits)
qed

lemma standard_normal_ppf_error: "standard_normal_ppf erfinv x = Inl e \<Longrightarrow> e = AssertionError []"
  by (simp add: standard_normal_ppf_def Let_def split: if_splits)

lemma forward_tail_error:
  assumes "snd (forward_tail erf erfinv s1 x) = Inl e"
  shows "e = AssertionError [] \<or> e = RuntimeError ''quantile() input tensor must be non-empty'' \<or>
         e = ZeroDivisionError"
proof -
  let ?all = "get_slice (cdf_data s1) 0 (size_b s1) @ x"
  let ?v = "vmap (\<lambda>j. process_merged erf s1 (map (\<lambda>r. r ! j) ?all) (bw s1 ! j)) [0..<nat (num_features s1)]"
  show ?thesis
  proof (cases "int (length ?all) \<noteq> size_b s1 + int (length x)")
    case True
    then show ?thesis using assms by (simp add: forward_tail_def Let_def)
  next
    case False
    show ?thesis
    proof (cases ?v)
      case (Inl e')
      then have "e = e'" using assms False by (simp add: forward_tail_def Let_def)
      moreover obtain j where "process_merged erf s1 (map (\<lambda>r. r ! j) ?all) (bw s1 ! j) = Inl e'"
        using vmap_error [OF Inl] by blast
      ultimately show ?thesis using process_merged_error by blast
    next
      case (Inr cols)
      then show ?thesis using assms False
        by (auto simp: forward_tail_def Let_def split: if_splits sum.splits dest: standard_normal_ppf_error)
    qed
  qed
qed

text \<open>
  Claim C7. Outside training mode \<open>fill\<close> raises the assertion error with its message and changes nothing. In evaluation mode \<open>forward\<close> raises the assertion error with its message when the fill level is 0; when the fill level is at least 1 it leaves the module as it is, and whatever it returns or raises is not that assertion error.
\<close>

theorem mode_state_checks:
  "(\<not> training s \<longrightarrow>
      fill s draws data = (s, Inl (AssertionError ''Must be in training mode to allow filling.''))) \<and>
   (\<not> training s \<and> size_b s = 0 \<longrightarrow>
      forward erf erfinv s draws x =
        (s, Inl (AssertionError ''Cannot compute forward pass without sample for the integral transform.''))) \<and>
   (\<not> training s \<and> 1 \<le> size_b s \<longrightarrow>
      fst (forward erf erfinv s draws x) = s \<and>
      snd (forward erf erfinv s draws x) \<noteq>
        Inl (AssertionError ''Cannot compute forward pass without sample for the integral transform.''))"
proof (intro conjI impI)
  assume "\<not> training s"
  then show "fill s draws data = (s, Inl (AssertionError ''Must be in training mode to allow filling.''))"
    by (rule fill_not_training)
next
  assume "\<not> training s \<and> size_b s = 0"
  then show "forward erf erfinv s draws x =
        (s, Inl (AssertionError ''Cannot compute forward pass without sample for the integral transform.''))"
    by (simp add: forward_eq)
next
  assume "\<not> training s \<and> 1 \<le> size_b s"
  then show "fst (forward erf erfinv s draws x) = s" by (simp add: forward_state)
next
  assume a: "\<not> training s \<and> 1 \<le> size_b s"
  then have eq: "forward erf erfinv s draws x = forward_tail erf erfinv s x"
    by (simp add: forward_eq)
  show "snd (forward erf erfinv s draws x) \<noteq>
        Inl (AssertionError ''Cannot compute forward pass without sample for the integral transform.'')"
  proof
    assume "snd (forward erf erfinv s draws x) =
        Inl (AssertionError ''Cannot compute forward pass without sample for the integral transform.'')"
    then have "snd (forward_tail erf erfinv s x) =
        Inl (AssertionError ''Cannot compute forward pass without sample for the integral transform.'')"
      by (simp add: eq)
    from forward_tail_error [OF this] show False by simp
  qed
qed

theorem mode_state_checks_witness:
  "\<forall>erf erfinv.
     \<not> training (demo 1 0 0 [[NaN]]\<lparr>training := False\<rparr>) \<and>
     fill (demo 1 0 0 [[NaN]]\<lparr>training := False\<rparr>) ([], []) [[Fin 1]] =
       (demo 1 0 0 [[NaN]]\<lparr>training := False\<rparr>,
        Inl (AssertionError ''Must be in training mode to allow filling.'')) \<and>
     forward erf erfinv (demo 1 0 0 [[NaN]]\<lparr>training := False\<rparr>) ([], []) [[Fin 1]] =
       (demo 1 0 0 [[NaN]]\<lparr>training := False\<rparr>,
        Inl (AssertionError ''Cannot compute forward pass without sample for the integral transform.'')) \<and>
     fst (forward erf erfinv (demo 1 0 1 [[Fin 2]]\<lparr>training := False\<rparr>) ([], []) [[Fin 1]]) =
       demo 1 0 1 [[Fin 2]]\<lparr>training := False\<rparr> \<and>
     snd (forward erf erfinv (demo 1 0 1 [[Fin 2]]\<lparr>training := False\<rparr>) ([], []) [[Fin 1]]) \<noteq>
       Inl (AssertionError ''Cannot compute forward pass without sample for the integral transform.'')"
proof (intro allI)
  fix erf erfinv :: "real \<Rightarrow> real"
  show "\<not> training (demo 1 0 0 [[NaN]]\<lparr>training := False\<rparr>) \<and>
     fill (demo 1 0 0 [[NaN]]\<lparr>training := False\<rparr>) ([], []) [[Fin 1]] =
       (demo 1 0 0 [[NaN]]\<lparr>training := False\<rparr>,
        Inl (AssertionError ''Must be in training mode to allow filling.'')) \<and>
     forward erf erfinv (demo 1 0 0 [[NaN]]\<lparr>training := False\<rparr>) ([], []) [[Fin 1]] =
       (demo 1 0 0 [[NaN]]\<lparr>training := False\<rparr>,
        Inl (AssertionError ''Cannot compute forward pass without sample for the integral transform.'')) \<and>
     fst (forward erf erfinv (demo 1 0 1 [[Fin 2]]\<lparr>training := False\<rparr>) ([], []) [[Fin 1]]) =
       demo 1 0 1 [[Fin 2]]\<lparr>training := False\<rparr> \<and>
     snd (forward erf erfinv (demo 1 0 1 [[Fin 2]]\<lparr>training := False\<rparr>) ([], []) [[Fin 1]]) \<noteq>
       Inl (AssertionError ''Cannot compute forward pass without sample for the integral transform.'')"
    using mode_state_checks [of "demo 1 0 0 [[NaN]]\<lparr>training := False\<rparr>" "([], [])" "[[Fin 1]]" erf erfinv "[[Fin 1]]"]
      mode_state_checks [of "demo 1 0 1 [[Fin 2]]\<lparr>training := False\<rparr>" "([], [])" "[[Fin 1]]" erf erfinv "[[Fin 1]]"]
    by simp
qed

lemma replace_when_full_bw:
  "replace_when_full (s\<lparr>bw := b\<rparr>) draws data =
     (fst (replace_when_full s draws data)\<lparr>bw := b\<rparr>, snd (replace_when_full s draws data))"
proof -
  let ?k = "min (int (length data)) (take_num_samples_when_full s)"
  let ?ip = "index_put (cdf_data s) (get_slice (snd draws) 0 ?k) (index_select data (fst draws))"
  have sel: "take_num_samples_when_full (s\<lparr>bw := b\<rparr>) = take_num_samples_when_full s"
    "cdf_data (s\<lparr>bw := b\<rparr>) = cdf_data s"
    by simp_all
  consider (off) "take_num_samples_when_full s = 0"
    | (neg) "take_num_samples_when_full s \<noteq> 0" "?k < 0"
    | (err) e where "take_num_samples_when_full s \<noteq> 0" "\<not> ?k < 0" "?ip = Inl e"
    | (ok) vs where "take_num_samples_when_full s \<noteq> 0" "\<not> ?k < 0" "?ip = Inr vs"
    by (cases ?ip) auto
  then show ?thesis
  proof cases
    case off
    then show ?thesis by (simp add: replace_when_full_def)
  next
    case neg
    show ?thesis unfolding replace_when_full_def Let_def sel
      by (simp only: neg if_True if_False fst_conv snd_conv)
  next
    case err
    show ?thesis unfolding replace_when_full_def Let_def sel
      by (simp only: err if_True if_False fst_conv snd_conv sum.case)
  next
    case ok
    have "s\<lparr>bw := b, cdf_data := vs\<rparr> = s\<lparr>cdf_data := vs, bw := b\<rparr>" by simp
    then show ?thesis unfolding replace_when_full_def Let_def sel
      by (simp only: ok if_True if_False fst_conv snd_conv sum.case)
  qed
qed

lemma fill_bw:
  "fill (s\<lparr>bw := b\<rparr>) draws data = (fst (fill s draws data)\<lparr>bw := b\<rparr>, snd (fill s draws data))"
proof (cases rule: fill_cases [where s = s and data = data])
  case not_training
  then show ?thesis by (simp add: fill_not_training)
next
  case room
  then show ?thesis by (simp add: fill_room capacity_left_def split: sum.splits)
next
  case partial
  let ?ss = "set_slice (cdf_data s) (size_b s) (num_pit_samples s) (get_slice data 0 (capacity_left s))"
  have p': "training (s\<lparr>bw := b\<rparr>)" "0 < capacity_left (s\<lparr>bw := b\<rparr>)"
    "capacity_left (s\<lparr>bw := b\<rparr>) < int (length data)"
    using partial by (simp_all add: capacity_left_def)
  have cl: "capacity_left (s\<lparr>bw := b\<rparr>) = capacity_left s" by (simp add: capacity_left_def)
  show ?thesis
  proof (cases ?ss)
    case (Inl e)
    then show ?thesis using partial
      by (simp add: fill_partial [OF p'] fill_partial [OF partial] cl)
  next
    case (Inr vs)
    let ?s1 = "s\<lparr>cdf_data := vs, size_b := size_b s + capacity_left s\<rparr>"
    have upd: "s\<lparr>bw := b, cdf_data := vs, size_b := size_b s + capacity_left s\<rparr> = ?s1\<lparr>bw := b\<rparr>"
      by simp
    show ?thesis using Inr
      by (simp add: fill_partial [OF p'] fill_partial [OF partial] cl upd replace_when_full_bw
               del: bpn.update_convs)
  qed
next
  case no_room
  then show ?thesis by (simp add: fill_no_room capacity_left_def replace_when_full_bw)
qed

lemma make_cdf_bw_fixed:
  "\<not> trainable_bandwidths s \<Longrightarrow> make_cdf_bw (s\<lparr>bw := b\<rparr>) data a' = make_cdf_bw s data a"
  by (simp add: make_cdf_bw_def)

lemma process_merged_fixed:
  "\<not> trainable_bandwidths s \<Longrightarrow>
   process_merged erf (s\<lparr>bw := b\<rparr>) col a' = process_merged erf s col a"
  by (simp add: process_merged_def make_cdf_def make_cdf_bw_fixed [of s b _ a' a])

lemma forward_tail_fixed:
  assumes "\<not> trainable_bandwidths s"
  shows "forward_tail erf erfinv (s\<lparr>bw := b\<rparr>) x =
     (fst (forward_tail erf erfinv s x)\<lparr>bw := b\<rparr>, snd (forward_tail erf erfinv s x))"
proof -
  have pm: "(\<lambda>j. process_merged erf (s\<lparr>bw := b\<rparr>) (col j) (b ! j)) =
            (\<lambda>j. process_merged erf s (col j) (bw s ! j))" for col :: "nat \<Rightarrow> fnum list"
    using assms by (intro ext) (rule process_merged_fixed)
  show ?thesis
    by (simp add: forward_tail_def Let_def pm split: sum.splits)
qed

text \<open>
  Claim C9. With \<^verbatim>\<open>trainable_bandwidths = False\<close> the outcome of \<open>forward\<close> (the output tensor or the exception) is the same for every content \<open>b\<close> of \<^verbatim>\<open>self.bw\<close>, and the state of the module after the call differs in \<^verbatim>\<open>self.bw\<close> only.
\<close>

theorem forward_ignores_stored_bandwidths:
  assumes "\<not> trainable_bandwidths s"
  shows "forward erf erfinv (s\<lparr>bw := b\<rparr>) draws x =
     (fst (forward erf erfinv s draws x)\<lparr>bw := b\<rparr>, snd (forward erf erfinv s draws x))"
proof -
  have cfg: "\<not> trainable_bandwidths (fst (fill s draws x))"
    using assms fill_config [of s draws x] by (simp add: same_config_def)
  show ?thesis
  proof (cases "training s")
    case True
    obtain s1 r where f: "fill s draws x = (s1, r)" by (cases "fill s draws x")
    have t1: "\<not> trainable_bandwidths s1" using cfg f by simp
    show ?thesis
    proof (cases r)
      case (Inl e)
      then show ?thesis using True f by (simp add: forward_eq fill_bw)
    next
      case (Inr u)
      then show ?thesis using True f forward_tail_fixed [OF t1, of erf erfinv b x]
        by (simp add: forward_eq fill_bw)
    qed
  next
    case False
    then show ?thesis using forward_tail_fixed [OF assms, of erf erfinv b x]
      by (simp add: forward_eq)
  qed
qed

theorem forward_ignores_stored_bandwidths_witness:
  "\<forall>erf erfinv.
     \<not> trainable_bandwidths (demo 2 0 2 [[Fin 1], [Fin 3]]) \<and>
     snd (forward erf erfinv (demo 2 0 2 [[Fin 1], [Fin 3]]\<lparr>bw := [Fin 7]\<rparr>) ([], []) [[Fin 2]]) =
     snd (forward erf erfinv (demo 2 0 2 [[Fin 1], [Fin 3]]) ([], []) [[Fin 2]])"
proof (intro allI)
  fix erf erfinv :: "real \<Rightarrow> real"
  show "\<not> trainable_bandwidths (demo 2 0 2 [[Fin 1], [Fin 3]]) \<and>
     snd (forward erf erfinv (demo 2 0 2 [[Fin 1], [Fin 3]]\<lparr>bw := [Fin 7]\<rparr>) ([], []) [[Fin 2]]) =
     snd (forward erf erfinv (demo 2 0 2 [[Fin 1], [Fin 3]]) ([], []) [[Fin 2]])"
    using forward_ignores_stored_bandwidths [of "demo 2 0 2 [[Fin 1], [Fin 3]]" erf erfinv "[Fin 7]" "([], [])" "[[Fin 2]]"]
    by simp
qed

section \<open>Properties of the kernel CDF and the bandwidth\<close>

subsection \<open>The kernel CDF\<close>

lemma foldl_fadd_Fin: "foldl fadd (Fin a) (map Fin xs) = Fin (a + sum_list xs)"
  by (induction xs arbitrary: a) (simp_all add: add.assoc)

lemma fsum_Fin: "fsum (map Fin xs) = Fin (sum_list xs)"
  by (simp add: fsum_def foldl_fadd_Fin)

lemma fsum_map_Fin: "fsum (map (\<lambda>x. Fin (f x)) xs) = Fin (\<Sum>x\<leftarrow>xs. f x)"
  using fsum_Fin [of "map f xs"] by (simp add: comp_def)

lemma standard_normal_cdf_Fin:
  "b \<noteq> 0 \<Longrightarrow> standard_normal_cdf erf (fdiv (fsub (Fin x) (Fin d)) (Fin b)) = Fin (spec_Phi erf ((x - d) / b))"
  by (simp add: standard_normal_cdf_def spec_Phi_def fsub_def)

lemma sum_list_nth: "(\<Sum>x\<leftarrow>xs. f x) = (\<Sum>i < length xs. f (xs ! i))"
  using sum_list_sum_nth [of "map f xs"] by (simp add: atLeast0LessThan)

subsection \<open>The heuristic bandwidth\<close>

lemma sort_key_replicate: "sort_key f (replicate n x) = replicate n x"
proof (induction n)
  case 0
  then show ?case by simp
next
  case (Suc n)
  have "insort_key f x (replicate n x) = replicate (Suc n) x"
    by (cases n) simp_all
  then show ?case using Suc by simp
qed

lemma lerp_same: "lerp (Fin c) (Fin c) w = Fin c"
  by (simp add: lerp_def fsub_def)

lemma quantile_replicate:
  assumes "0 < m" "0 \<le> q" "q \<le> 1"
  shows "quantile (replicate m (Fin c)) q = Inr (Fin c)"
proof -
  let ?rank = "q * real (m - 1)"
  have r0: "0 \<le> ?rank" using assms(2) by simp
  have r1: "?rank \<le> real (m - 1)" using assms(2,3) by (simp add: mult_left_le_one_le)
  have "\<lfloor>?rank\<rfloor> \<le> int (m - 1)" using r1 by (simp add: floor_le_iff)
  then have lo: "nat \<lfloor>?rank\<rfloor> < m" using assms(1) by linarith
  have "\<lceil>?rank\<rceil> \<le> int (m - 1)" using r1 by (simp add: ceiling_le_iff)
  then have hi: "nat \<lceil>?rank\<rceil> < m" using assms(1) by linarith
  have ne: "replicate m (Fin c) \<noteq> []" using assms(1) by simp
  show ?thesis using ne lo hi
    by (simp add: quantile_def Let_def sort_key_replicate lerp_same)
qed

lemma fsum_replicate: "fsum (replicate m (Fin c)) = Fin (real m * c)"
  using fsum_Fin [of "replicate m c"] by (simp add: sum_list_replicate)

lemma std_replicate:
  assumes "2 \<le> m"
  shows "std (replicate m (Fin c)) = Fin 0"
proof -
  have m0: "real m \<noteq> 0" and m1: "real m - 1 \<noteq> 0" using assms by auto
  have mean: "fdiv (fsum (replicate m (Fin c))) (Fin (real m)) = Fin c"
    using m0 by (simp add: fsum_replicate)
  have len: "length (replicate m (Fin c)) = m" by simp
  have ss: "fsum (map (\<lambda>v. fmul (fsub v (Fin c)) (fsub v (Fin c))) (replicate m (Fin c))) = Fin 0"
    by (simp add: fsub_def fsum_replicate)
  show ?thesis unfolding std_def Let_def len mean ss using m1 by simp
qed

text \<open>
  Claim C3, where the code departs from it. With fixed bandwidths, a reference sample of \<open>m \<ge> 2\<close> equal values has standard deviation 0 and interquartile range 0, and the heuristic bandwidth \<open>0.9 * min(sigma, IQR / 1.34) * m^(-0.2)\<close> is 0: not strictly positive.
\<close>

theorem heuristic_bandwidth_zero_on_constant_sample:
  assumes "\<not> trainable_bandwidths s" "2 \<le> m"
  shows "make_cdf_bw s (replicate m (Fin c)) bw_arg = Inr (Fin 0)"
proof -
  have m: "0 < m" using assms(2) by simp
  have q: "quantile (replicate m (Fin c)) 0.25 = Inr (Fin c)"
    "quantile (replicate m (Fin c)) 0.75 = Inr (Fin c)"
    using m by (simp_all add: quantile_replicate)
  show ?thesis unfolding make_cdf_bw_def Let_def q std_replicate [OF assms(2)] using assms(1)
    by (simp add: fsub_def fmin_def)
qed

theorem heuristic_bandwidth_zero_on_constant_sample_witness:
  "\<not> trainable_bandwidths (demo 2 0 2 [[Fin 5], [Fin 5]]) \<and> (2 :: nat) \<le> 2 \<and>
   make_cdf_bw (demo 2 0 2 [[Fin 5], [Fin 5]]) [Fin 5, Fin 5] NaN = Inr (Fin 0)"
  using heuristic_bandwidth_zero_on_constant_sample [of "demo 2 0 2 [[Fin 5], [Fin 5]]" 2 5 NaN]
  by (simp add: numeral_2_eq_2)

subsection \<open>A constant feature through the transform\<close>

lemma quantile_const2: "quantile [Fin c, Fin c] (1 / 4) = Inr (Fin c)" "quantile [Fin c, Fin c] (3 / 4) = Inr (Fin c)"
  by (simp_all add: quantile_def lerp_def fsub_def Let_def)

lemma std_const2: "std [Fin c, Fin c] = Fin 0"
  by (simp add: std_def fsum_def fsub_def Let_def)

lemma get_slice_simps:
  "0 \<le> a \<Longrightarrow> a \<le> b \<Longrightarrow> get_slice xs a b = take (nat b - nat a) (drop (nat a) xs)"
  by (auto simp: get_slice_def slice_bounds_def Let_def min_def max_def)

lemma process_merged_const:
  "process_merged erf (demo 2 0 2 vals) [Fin 5, Fin 5, Fin 5, Fin 5] b = Inr [NaN, NaN]"
proof -
  have bwz: "make_cdf_bw (demo 2 0 2 vals) [Fin 5, Fin 5] b = Inr (Fin 0)"
    by (simp add: make_cdf_bw_def quantile_const2 std_const2 fsub_def fmin_def)
  have "standard_normal_cdf erf (fdiv (fsub (Fin 5) (Fin 5)) (Fin 0)) = NaN"
    by (simp add: standard_normal_cdf_def fsub_def)
  then show ?thesis
    by (simp add: process_merged_def make_cdf_def bwz get_slice_simps fsum_def numeral_2_eq_2)
qed

text \<open>
  What the bandwidth 0 leads to: in training mode, a first batch of two equal values is stored and then transformed with itself as reference; the kernel argument is \<open>0 / 0\<close>, and every output is NaN. With \<^verbatim>\<open>normal_backtransform\<close> set, the final assertion of \<^verbatim>\<open>standard_normal_ppf\<close> fails instead.
\<close>

lemma forward_constant_feature_nan:
  "forward erf erfinv (demo 2 0 0 [[NaN], [NaN]]) ([], []) [[Fin 5], [Fin 5]] =
     (demo 2 0 2 [[Fin 5], [Fin 5]], Inr [[NaN], [NaN]])"
proof -
  have f: "fill (demo 2 0 0 [[NaN], [NaN]]) ([], []) [[Fin 5], [Fin 5]] = (demo 2 0 2 [[Fin 5], [Fin 5]], Inr ())"
    by (simp add: fill_room_inv buf_inv_def capacity_left_def)
  have u: "[0..<2] = [0, 1]" by (simp add: upt_rec numeral_2_eq_2)
  show ?thesis
    by (simp add: forward_eq f forward_tail_def get_slice_simps process_merged_const u fsub_def)
qed

lemma forward_constant_feature_fails:
  "forward erf erfinv (demo 2 0 0 [[NaN], [NaN]]\<lparr>normal_backtransform := True\<rparr>) ([], []) [[Fin 5], [Fin 5]] =
     (demo 2 0 2 [[Fin 5], [Fin 5]]\<lparr>normal_backtransform := True\<rparr>, Inl (AssertionError []))"
proof -
  let ?s = "demo 2 0 0 [[NaN], [NaN]]\<lparr>normal_backtransform := True\<rparr>"
  have f: "fill ?s ([], []) [[Fin 5], [Fin 5]] =
           (demo 2 0 2 [[Fin 5], [Fin 5]]\<lparr>normal_backtransform := True\<rparr>, Inr ())"
    by (simp add: fill_room_inv buf_inv_def capacity_left_def demo_def)
  have u: "[0..<2] = [0, 1]" by (simp add: upt_rec numeral_2_eq_2)
  have pm: "process_merged erf (demo 2 0 2 vals\<lparr>normal_backtransform := True\<rparr>) col b =
            process_merged erf (demo 2 0 2 vals) col b" for vals col b
    by (simp add: process_merged_def make_cdf_def make_cdf_bw_def)
  have ppf: "standard_normal_ppf erfinv [[NaN], [NaN]] = Inl (AssertionError [])"
    by (simp add: standard_normal_ppf_def isnan_def fsub_def)
  show ?thesis
    by (simp add: forward_eq f forward_tail_def get_slice_simps pm process_merged_const u ppf)
qed

subsection \<open>The heuristic bandwidth of a finite sample\<close>

lemma quantile_example:
  "quantile [Fin 3, Fin 1] 0.25 = Inr (Fin (3 / 2))" "quantile [Fin 3, Fin 1] 0.75 = Inr (Fin (5 / 2))"
  by (simp_all add: quantile_def lerp_def fsub_def Let_def)

lemma std_example: "std [Fin 3, Fin 1] = Fin (sqrt 2)"
  by (simp add: std_def fsum_def fsub_def Let_def)

text \<open>
  The heuristic bandwidth of the sample \<open>3, 1\<close>: the quartiles are \<open>1.5\<close> and \<open>2.5\<close>, the standard deviation is \<open>sqrt 2\<close>.
\<close>

lemma heuristic_bandwidth_example:
  "make_cdf_bw (demo 2 0 2 [[Fin 3], [Fin 1]]) [Fin 3, Fin 1] NaN =
     Inr (Fin (0.9 * (1 / 1.34) * 2 powr (- 0.2)))"
proof -
  have "1 < sqrt 2" by simp
  then have lt: "\<not> sqrt 2 \<le> 50 / 67" by linarith
  show ?thesis unfolding make_cdf_bw_def Let_def quantile_example std_example
    using lt by (simp add: fsub_def fmin_def)
qed

lemma insort_key_Fin: "insort_key fkey (Fin x) (map Fin ys) = map Fin (insort x ys)"
  by (induction ys) simp_all

lemma sort_key_Fin: "sort_key fkey (map Fin ds) = map Fin (sort ds)"
  by (induction ds) (simp_all add: insort_key_Fin)

lemma lerp_Fin: "lerp (Fin a) (Fin b) w = Fin (a + w * (b - a))"
  by (simp add: lerp_def fsub_def algebra_simps)

lemma rank_bounds:
  assumes "0 < m" "0 \<le> q" "q \<le> 1"
  shows "nat \<lfloor>q * real (m - 1)\<rfloor> < m" "nat \<lceil>q * real (m - 1)\<rceil> < m"
proof -
  let ?rank = "q * real (m - 1)"
  have r1: "?rank \<le> real (m - 1)" using assms(2,3) by (simp add: mult_left_le_one_le)
  have "\<lfloor>?rank\<rfloor> \<le> int (m - 1)" using r1 by (simp add: floor_le_iff)
  then show "nat \<lfloor>?rank\<rfloor> < m" using assms(1) by linarith
  have "\<lceil>?rank\<rceil> \<le> int (m - 1)" using r1 by (simp add: ceiling_le_iff)
  then show "nat \<lceil>?rank\<rceil> < m" using assms(1) by linarith
qed

lemma quantile_Fin:
  assumes "ds \<noteq> []" "0 \<le> q" "q \<le> 1"
  shows "quantile (map Fin ds) q = Inr (Fin (interp (sort ds) (q * real (length ds - 1))))"
proof -
  have m: "0 < length ds" using assms(1) by simp
  note b = rank_bounds [OF m assms(2,3)]
  have nn: "NaN \<notin> set (map Fin ds)" by auto
  show ?thesis using assms(1) nn b
    by (simp add: quantile_def Let_def sort_key_Fin lerp_Fin interp_def del: set_map)
qed

lemma interp_bounds:
  assumes "sorted xs" "0 \<le> r" "nat \<lceil>r\<rceil> < length xs"
  shows "xs ! nat \<lfloor>r\<rfloor> \<le> interp xs r" "interp xs r \<le> xs ! nat \<lceil>r\<rceil>"
proof -
  let ?l = "nat \<lfloor>r\<rfloor>" and ?h = "nat \<lceil>r\<rceil>"
  have lh: "?l \<le> ?h" by (simp add: floor_le_ceiling nat_mono)
  have d: "xs ! ?l \<le> xs ! ?h" using assms(1,3) lh by (simp add: sorted_nth_mono)
  have fl: "real ?l = of_int \<lfloor>r\<rfloor>" using assms(2) by simp
  have w0: "0 \<le> r - real ?l" unfolding fl by linarith
  have w1: "r - real ?l \<le> 1" unfolding fl by linarith
  show "xs ! ?l \<le> interp xs r" using d w0 by (simp add: interp_def)
  have "(r - real ?l) * (xs ! ?h - xs ! ?l) \<le> 1 * (xs ! ?h - xs ! ?l)"
    using w1 d by (intro mult_right_mono) simp_all
  then show "interp xs r \<le> xs ! ?h" by (simp add: interp_def)
qed

lemma interp_mono:
  assumes "sorted xs" "0 \<le> r1" "r1 \<le> r2" "nat \<lceil>r2\<rceil> < length xs"
  shows "interp xs r1 \<le> interp xs r2"
proof -
  let ?l1 = "nat \<lfloor>r1\<rfloor>" and ?h1 = "nat \<lceil>r1\<rceil>" and ?l2 = "nat \<lfloor>r2\<rfloor>" and ?h2 = "nat \<lceil>r2\<rceil>"
  have r2: "0 \<le> r2" using assms(2,3) by linarith
  have "\<lceil>r1\<rceil> \<le> \<lceil>r2\<rceil>" using assms(3) by (rule ceiling_mono)
  then have h12: "?h1 \<le> ?h2" by (rule nat_mono)
  then have h1: "?h1 < length xs" using assms(4) by linarith
  have "\<lfloor>r1\<rfloor> \<le> \<lfloor>r2\<rfloor>" using assms(3) by (rule floor_mono)
  then have l12: "?l1 \<le> ?l2" by (rule nat_mono)
  have lh2: "?l2 \<le> ?h2" by (simp add: floor_le_ceiling nat_mono)
  show ?thesis
  proof (cases "?l1 < ?l2")
    case True
    have "\<lceil>r1\<rceil> \<le> \<lfloor>r1\<rfloor> + 1" by (simp add: ceiling_altdef)
    then have "?h1 \<le> ?l1 + 1" by linarith
    then have "?h1 \<le> ?l2" using True by linarith
    then have "xs ! ?h1 \<le> xs ! ?l2" using assms(1,4) lh2 by (simp add: sorted_nth_mono)
    then show ?thesis
      using interp_bounds(2) [OF assms(1,2) h1] interp_bounds(1) [OF assms(1) r2 assms(4)]
      by linarith
  next
    case False
    then have eq: "?l1 = ?l2" using l12 by linarith
    show ?thesis
    proof (cases "r1 = of_int \<lfloor>r1\<rfloor>")
      case True
      then have "?h1 = ?l1" by (metis ceiling_of_int)
      then have "interp xs r1 = xs ! ?l2" using eq by (simp add: interp_def)
      then show ?thesis using interp_bounds(1) [OF assms(1) r2 assms(4)] by simp
    next
      case False
      have fl1: "real ?l1 = of_int \<lfloor>r1\<rfloor>" using assms(2) by simp
      have fl2: "real ?l2 = of_int \<lfloor>r2\<rfloor>" using r2 by simp
      have "of_int \<lfloor>r1\<rfloor> < r1" using False by linarith
      then have "of_int \<lfloor>r2\<rfloor> < r2" using assms(3) eq fl1 fl2 by linarith
      then have ne2: "r2 \<noteq> of_int \<lfloor>r2\<rfloor>" by simp
      have "\<lceil>r1\<rceil> = \<lfloor>r1\<rfloor> + 1" using False by (simp add: ceiling_altdef)
      moreover have "\<lceil>r2\<rceil> = \<lfloor>r2\<rfloor> + 1" using ne2 by (simp add: ceiling_altdef)
      moreover have "\<lfloor>r1\<rfloor> = \<lfloor>r2\<rfloor>" using eq fl1 fl2 by linarith
      ultimately have heq: "?h1 = ?h2" by simp
      have "?l2 \<le> ?h2" by (rule lh2)
      then have d: "0 \<le> xs ! ?h2 - xs ! ?l2" using assms(1,4) by (simp add: sorted_nth_mono)
      have "(r1 - real ?l2) * (xs ! ?h2 - xs ! ?l2) \<le> (r2 - real ?l2) * (xs ! ?h2 - xs ! ?l2)"
        using assms(3) d by (intro mult_right_mono) simp_all
      then show ?thesis by (simp add: interp_def eq heq)
    qed
  qed
qed

lemma interp_replicate:
  "nat \<lceil>r\<rceil> < m \<Longrightarrow> interp (replicate m c) r = c"
proof -
  assume h: "nat \<lceil>r\<rceil> < m"
  have "nat \<lfloor>r\<rfloor> \<le> nat \<lceil>r\<rceil>" by (simp add: floor_le_ceiling nat_mono)
  then have "nat \<lfloor>r\<rfloor> < m" using h by linarith
  then show ?thesis using h by (simp add: interp_def)
qed

lemma std_Fin:
  assumes "2 \<le> length ds"
  shows "std (map Fin ds) =
     Fin (sqrt ((\<Sum>x\<leftarrow>ds. (x - sum_list ds / real (length ds)) * (x - sum_list ds / real (length ds))) /
                (real (length ds) - 1)))"
proof -
  let ?m = "real (length ds)" and ?mu = "sum_list ds / real (length ds)"
  have m0: "?m \<noteq> 0" and m1: "?m - 1 \<noteq> 0" and m1': "0 < ?m - 1" using assms by auto
  have len: "length (map Fin ds) = length ds" by simp
  have mean: "fdiv (fsum (map Fin ds)) (Fin ?m) = Fin ?mu" using m0 by (simp add: fsum_Fin)
  have ss: "fsum (map (\<lambda>v. fmul (fsub v (Fin ?mu)) (fsub v (Fin ?mu))) (map Fin ds)) =
            Fin (\<Sum>x\<leftarrow>ds. (x - ?mu) * (x - ?mu))"
    using fsum_map_Fin [of "\<lambda>x. (x - ?mu) * (x - ?mu)" ds] by (simp add: comp_def fsub_def)
  have nn: "0 \<le> (\<Sum>x\<leftarrow>ds. (x - ?mu) * (x - ?mu))" by (rule sum_list_nonneg) auto
  then have "\<not> (\<Sum>x\<leftarrow>ds. (x - ?mu) * (x - ?mu)) / (?m - 1) < 0"
    using m1' by (simp add: not_less)
  then show ?thesis unfolding std_def Let_def len mean ss using m1 by simp
qed

lemma zero_deviation_constant:
  assumes "2 \<le> length ds"
    and "sqrt ((\<Sum>x\<leftarrow>ds. (x - mu) * (x - mu)) / (real (length ds) - 1)) = 0"
  shows "ds = replicate (length ds) mu"
proof -
  have m1: "real (length ds) - 1 \<noteq> 0" using assms(1) by auto
  have "(\<Sum>x\<leftarrow>ds. (x - mu) * (x - mu)) = 0" using assms(2) m1 by simp
  moreover have "\<forall>y \<in> set (map (\<lambda>x. (x - mu) * (x - mu)) ds). 0 \<le> y" by auto
  ultimately have "\<forall>y \<in> set (map (\<lambda>x. (x - mu) * (x - mu)) ds). y = 0"
    by (simp only: sum_list_nonneg_eq_0_iff)
  then have "\<forall>x \<in> set ds. x = mu" by simp
  then show ?thesis by (intro replicate_eqI) simp_all
qed

lemma fmin_Fin: "fmin (Fin a) (Fin b) = Fin (min a b)"
  by (simp add: fmin_def min_def)

lemma make_cdf_bw_Fin:
  assumes "\<not> trainable_bandwidths s" "2 \<le> length ds"
    and q1: "quantile (map Fin ds) 0.25 = Inr (Fin a)"
    and q2: "quantile (map Fin ds) 0.75 = Inr (Fin c)"
  shows "make_cdf_bw s (map Fin ds) bw_arg =
    Inr (Fin (0.9 * min (sqrt ((\<Sum>x\<leftarrow>ds. (x - sum_list ds / real (length ds)) * (x - sum_list ds / real (length ds))) /
                (real (length ds) - 1))) ((c - a) / 1.34) * real (length ds) powr (- 0.2)))"
proof -
  have len: "length (map Fin ds) = length ds" by simp
  show ?thesis
    unfolding make_cdf_bw_def Let_def q1 q2 len std_Fin [OF assms(2)] using assms(1)
    by (simp add: fsub_def fmin_Fin)
qed

lemma bw_arith:
  fixes sd a c p :: real
  assumes "0 \<le> sd" "a \<le> c" "0 < p"
  shows "0 \<le> 0.9 * min sd ((c - a) / 1.34) * p"
    and "0 < 0.9 * min sd ((c - a) / 1.34) * p \<longleftrightarrow> 0 < sd \<and> a < c"
proof -
  have mn: "0 \<le> min sd ((c - a) / 1.34)" using assms(1,2) by simp
  then show "0 \<le> 0.9 * min sd ((c - a) / 1.34) * p" using assms(3) by simp
  have "0 < 0.9 * min sd ((c - a) / 1.34) * p \<longleftrightarrow> 0 < min sd ((c - a) / 1.34)"
    using assms(3) by (simp add: zero_less_mult_iff)
  also have "\<dots> \<longleftrightarrow> 0 < sd \<and> a < c" by simp
  finally show "0 < 0.9 * min sd ((c - a) / 1.34) * p \<longleftrightarrow> 0 < sd \<and> a < c" .
qed

lemma quartiles_ordered:
  assumes "ds \<noteq> []"
  shows "interp (sort ds) (0.25 * real (length ds - 1)) \<le> interp (sort ds) (0.75 * real (length ds - 1))"
proof -
  have m: "0 < length ds" using assms by simp
  have "nat \<lceil>0.75 * real (length ds - 1)\<rceil> < length ds" by (rule rank_bounds(2) [OF m]) simp_all
  then have h2: "nat \<lceil>0.75 * real (length ds - 1)\<rceil> < length (sort ds)" by (simp only: length_sort)
  have s: "sorted (sort ds)" by (rule sorted_sort)
  have r0: "0 \<le> 0.25 * real (length ds - 1)" by simp
  have r12: "0.25 * real (length ds - 1) \<le> 0.75 * real (length ds - 1)" by simp
  show ?thesis by (rule interp_mono [OF s r0 r12 h2])
qed

lemma quartiles_constant:
  assumes "0 < m"
  shows "interp (sort (replicate m c)) (0.25 * real (m - 1)) = c"
    and "interp (sort (replicate m c)) (0.75 * real (m - 1)) = c"
proof -
  have s: "sort (replicate m c) = replicate m c" by (rule sort_key_replicate)
  have h1: "nat \<lceil>0.25 * real (m - 1)\<rceil> < m" by (rule rank_bounds(2) [OF assms]) simp_all
  have h2: "nat \<lceil>0.75 * real (m - 1)\<rceil> < m" by (rule rank_bounds(2) [OF assms]) simp_all
  show "interp (sort (replicate m c)) (0.25 * real (m - 1)) = c"
    unfolding s using h1 by (rule interp_replicate)
  show "interp (sort (replicate m c)) (0.75 * real (m - 1)) = c"
    unfolding s using h2 by (rule interp_replicate)
qed

text \<open>
  What does hold of the heuristic bandwidth: for a finite reference sample of \<open>m \<ge> 2\<close> values it is a finite number, it is not negative, and it is positive exactly when the interpolated 75th percentile lies above the 25th.
\<close>

lemma heuristic_bandwidth_nonneg:
  assumes "\<not> trainable_bandwidths s" "2 \<le> length ds"
  shows "\<exists>b q25 q75.
           make_cdf_bw s (map Fin ds) bw_arg = Inr (Fin b) \<and>
           quantile (map Fin ds) 0.25 = Inr (Fin q25) \<and>
           quantile (map Fin ds) 0.75 = Inr (Fin q75) \<and>
           q25 \<le> q75 \<and> 0 \<le> b \<and> (0 < b \<longleftrightarrow> q25 < q75)"
proof -
  define m where "m = length ds"
  define mu where "mu = sum_list ds / real (length ds)"
  define sd where "sd = sqrt ((\<Sum>x\<leftarrow>ds. (x - mu) * (x - mu)) / (real (length ds) - 1))"
  define q25 where "q25 = interp (sort ds) (0.25 * real (length ds - 1))"
  define q75 where "q75 = interp (sort ds) (0.75 * real (length ds - 1))"
  define p where "p = real (length ds) powr (- 0.2)"
  have ne: "ds \<noteq> []" and m: "0 < length ds" using assms(2) by auto
  have q1: "quantile (map Fin ds) 0.25 = Inr (Fin q25)"
    unfolding q25_def using ne by (intro quantile_Fin) simp_all
  have q2: "quantile (map Fin ds) 0.75 = Inr (Fin q75)"
    unfolding q75_def using ne by (intro quantile_Fin) simp_all
  have bw: "make_cdf_bw s (map Fin ds) bw_arg = Inr (Fin (0.9 * min sd ((q75 - q25) / 1.34) * p))"
    unfolding sd_def mu_def p_def by (rule make_cdf_bw_Fin [OF assms q1 q2])
  have le: "q25 \<le> q75" unfolding q25_def q75_def using ne by (rule quartiles_ordered)
  have "0 \<le> (\<Sum>x\<leftarrow>ds. (x - mu) * (x - mu))" by (rule sum_list_nonneg) auto
  moreover have "0 \<le> real (length ds) - 1" using assms(2) by simp
  ultimately have "0 \<le> (\<Sum>x\<leftarrow>ds. (x - mu) * (x - mu)) / (real (length ds) - 1)"
    by (rule divide_nonneg_nonneg)
  then have sd0: "0 \<le> sd" unfolding sd_def by (simp only: real_sqrt_ge_0_iff)
  have pw: "0 < p" unfolding p_def using m by simp
  have imp: "q25 < q75 \<Longrightarrow> 0 < sd"
  proof (rule ccontr)
    assume lt: "q25 < q75" and "\<not> 0 < sd"
    then have "sd = 0" using sd0 by linarith
    then have c: "ds = replicate (length ds) mu"
      unfolding sd_def by (rule zero_deviation_constant [OF assms(2)])
    have "interp (sort (replicate (length ds) mu)) (0.25 * real (length ds - 1)) = mu"
      and "interp (sort (replicate (length ds) mu)) (0.75 * real (length ds - 1)) = mu"
      using quartiles_constant [OF m] by blast+
    then have "q25 = mu" "q75 = mu" unfolding q25_def q75_def using c by simp_all
    then show False using lt by simp
  qed
  have b0: "0 \<le> 0.9 * min sd ((q75 - q25) / 1.34) * p"
    by (rule bw_arith(1) [OF sd0 le pw])
  have "0 < 0.9 * min sd ((q75 - q25) / 1.34) * p \<longleftrightarrow> 0 < sd \<and> q25 < q75"
    by (rule bw_arith(2) [OF sd0 le pw])
  then have iff: "0 < 0.9 * min sd ((q75 - q25) / 1.34) * p \<longleftrightarrow> q25 < q75"
    using imp by blast
  show ?thesis using bw q1 q2 le b0 iff by blast
qed

subsection \<open>The CDF that make_cdf builds\<close>

lemma make_cdf_bw_heuristic:
  assumes "\<not> trainable_bandwidths s" "2 \<le> length ds"
  shows "make_cdf_bw s (map Fin ds) bw_arg = Inr (Fin (spec_bandwidth ds))"
proof -
  have ne: "ds \<noteq> []" using assms(2) by auto
  have q1: "quantile (map Fin ds) 0.25 = Inr (Fin (spec_quantile ds 0.25))"
    unfolding spec_quantile_def using ne by (intro quantile_Fin) simp_all
  have q2: "quantile (map Fin ds) 0.75 = Inr (Fin (spec_quantile ds 0.75))"
    unfolding spec_quantile_def using ne by (intro quantile_Fin) simp_all
  show ?thesis unfolding spec_bandwidth_def spec_sigma_def Let_def
    by (rule make_cdf_bw_Fin [OF assms q1 q2])
qed

lemma make_cdf_bw_trainable:
  "trainable_bandwidths s \<Longrightarrow> make_cdf_bw s data (Fin raw) = Inr (Fin (1 / (1 + exp (- raw))))"
  by (simp add: make_cdf_bw_def)

lemma sigmoid_nonzero: "1 / (1 + exp (- raw)) \<noteq> (0 :: real)"
proof -
  have "0 < 1 + exp (- raw)" by (simp add: add_pos_pos)
  then show ?thesis by simp
qed

lemma spec_bandwidth_positive:
  assumes "2 \<le> length ds"
  shows "0 \<le> spec_bandwidth ds"
    and "0 < spec_bandwidth ds \<longleftrightarrow> spec_quantile ds 0.25 < spec_quantile ds 0.75"
proof -
  obtain s :: bpn where s: "\<not> trainable_bandwidths s"
    by (rule that [of "demo 1 0 0 []"]) simp
  obtain b q25 q75 where h: "make_cdf_bw s (map Fin ds) NaN = Inr (Fin b)"
    "quantile (map Fin ds) 0.25 = Inr (Fin q25)" "quantile (map Fin ds) 0.75 = Inr (Fin q75)"
    "0 \<le> b" "0 < b \<longleftrightarrow> q25 < q75"
    using heuristic_bandwidth_nonneg [OF s assms, of NaN] by blast
  have ne: "ds \<noteq> []" using assms by auto
  have b: "b = spec_bandwidth ds" using h(1) make_cdf_bw_heuristic [OF s assms, of NaN] by simp
  have "quantile (map Fin ds) 0.25 = Inr (Fin (spec_quantile ds 0.25))"
    unfolding spec_quantile_def using ne by (intro quantile_Fin) simp_all
  then have q1: "q25 = spec_quantile ds 0.25" using h(2) by simp
  have "quantile (map Fin ds) 0.75 = Inr (Fin (spec_quantile ds 0.75))"
    unfolding spec_quantile_def using ne by (intro quantile_Fin) simp_all
  then have q2: "q75 = spec_quantile ds 0.75" using h(3) by simp
  show "0 \<le> spec_bandwidth ds" using h(4) b by simp
  show "0 < spec_bandwidth ds \<longleftrightarrow> spec_quantile ds 0.25 < spec_quantile ds 0.75"
    using h(5) b q1 q2 by simp
qed

lemma eval_cdf_formula:
  assumes "reference_sample \<noteq> []"
    and "make_cdf_bw s (map Fin reference_sample) bw_arg = Inr (Fin bandwidth)"
    and "bandwidth \<noteq> 0"
  shows "eval_cdf erf s (map Fin reference_sample) bw_arg (Fin x) =
           Inr (Fin (spec_F erf reference_sample bandwidth x))"
proof -
  let ?cdf = "\<lambda>use_x. Inr (fmul (Fin (1.0 / real (length reference_sample)))
        (fsum (map (\<lambda>d. standard_normal_cdf erf (fdiv (fsub use_x d) (Fin bandwidth))) (map Fin reference_sample)))) :: error + fnum"
  have m: "make_cdf erf s (map Fin reference_sample) bw_arg = Inr ?cdf"
    using assms(1,2) by (simp add: make_cdf_def)
  have "fsum (map (\<lambda>d. standard_normal_cdf erf (fdiv (fsub (Fin x) d) (Fin bandwidth))) (map Fin reference_sample)) =
        Fin (\<Sum>d\<leftarrow>reference_sample. spec_Phi erf ((x - d) / bandwidth))"
    using assms(3) by (simp add: comp_def standard_normal_cdf_Fin fsum_map_Fin)
  then have "?cdf (Fin x) = Inr (Fin (spec_F erf reference_sample bandwidth x))"
    by (simp add: spec_F_def sum_list_nth)
  then show ?thesis by (simp add: eval_cdf_def m)
qed

text \<open>
  Claim C1, amended. Let the reference sample have \<open>m \<ge> 1\<close> finite values and let the query
  point \<open>x\<close> be finite. With trainable bandwidths and a finite raw parameter, the CDF that
  \<open>make_cdf\<close> builds evaluates at \<open>x\<close> to \<open>(1/m) * \<Sum>i. \<Phi>((x - sample[i]) / b)\<close> with
  \<open>b\<close> the sigmoid of the raw parameter. With the heuristic bandwidth, \<open>m \<ge> 2\<close> and the
  75th percentile above the 25th, the heuristic bandwidth
  \<open>0.9 * min(sigma, IQR / 1.34) * m^(-0.2)\<close> is positive and the CDF evaluates at \<open>x\<close> to the
  same formula with this bandwidth for \<open>b\<close>.
\<close>

theorem make_cdf_is_kernel_cdf:
  assumes "reference_sample \<noteq> []"
  shows "(trainable_bandwidths s \<longrightarrow>
            eval_cdf erf s (map Fin reference_sample) (Fin raw) (Fin x) =
              Inr (Fin (spec_F erf reference_sample (1 / (1 + exp (- raw))) x))) \<and>
         (\<not> trainable_bandwidths s \<and> 2 \<le> length reference_sample \<and>
          spec_quantile reference_sample 0.25 < spec_quantile reference_sample 0.75 \<longrightarrow>
            0 < spec_bandwidth reference_sample \<and>
            eval_cdf erf s (map Fin reference_sample) bw_arg (Fin x) =
              Inr (Fin (spec_F erf reference_sample (spec_bandwidth reference_sample) x)))"
proof (intro conjI impI)
  assume "trainable_bandwidths s"
  then have "make_cdf_bw s (map Fin reference_sample) (Fin raw) = Inr (Fin (1 / (1 + exp (- raw))))"
    by (rule make_cdf_bw_trainable)
  then show "eval_cdf erf s (map Fin reference_sample) (Fin raw) (Fin x) =
              Inr (Fin (spec_F erf reference_sample (1 / (1 + exp (- raw))) x))"
    by (rule eval_cdf_formula [OF assms _ sigmoid_nonzero])
next
  assume a: "\<not> trainable_bandwidths s \<and> 2 \<le> length reference_sample \<and>
          spec_quantile reference_sample 0.25 < spec_quantile reference_sample 0.75"
  then show pos: "0 < spec_bandwidth reference_sample"
    using spec_bandwidth_positive(2) by blast
  have "make_cdf_bw s (map Fin reference_sample) bw_arg = Inr (Fin (spec_bandwidth reference_sample))"
    using a by (intro make_cdf_bw_heuristic) simp_all
  moreover have "spec_bandwidth reference_sample \<noteq> 0" using pos by simp
  ultimately show "eval_cdf erf s (map Fin reference_sample) bw_arg (Fin x) =
              Inr (Fin (spec_F erf reference_sample (spec_bandwidth reference_sample) x))"
    by (rule eval_cdf_formula [OF assms])
qed

lemma spec_quantile_example:
  "spec_quantile [3, 1] 0.25 = 3 / 2" "spec_quantile [3, 1] 0.75 = 5 / 2"
  by (simp_all add: spec_quantile_def interp_def)

theorem make_cdf_is_kernel_cdf_witness:
  "\<forall>erf x.
     [0, 1] \<noteq> ([] :: real list) \<and>
     trainable_bandwidths (demo 2 0 2 [[Fin 0], [Fin 1]]\<lparr>trainable_bandwidths := True\<rparr>) \<and>
     eval_cdf erf (demo 2 0 2 [[Fin 0], [Fin 1]]\<lparr>trainable_bandwidths := True\<rparr>)
         (map Fin [0, 1]) (Fin 0) (Fin x) = Inr (Fin (spec_F erf [0, 1] (1 / 2) x)) \<and>
     [3, 1] \<noteq> ([] :: real list) \<and>
     \<not> trainable_bandwidths (demo 2 0 2 [[Fin 3], [Fin 1]]) \<and>
     2 \<le> length [3, 1 :: real] \<and>
     spec_quantile [3, 1] 0.25 < spec_quantile [3, 1] 0.75 \<and>
     0 < spec_bandwidth [3, 1] \<and>
     eval_cdf erf (demo 2 0 2 [[Fin 3], [Fin 1]]) (map Fin [3, 1]) NaN (Fin x) =
       Inr (Fin (spec_F erf [3, 1] (spec_bandwidth [3, 1]) x))"
proof (intro allI)
  fix erf :: "real \<Rightarrow> real" and x :: real
  have q: "spec_quantile [3, 1] 0.25 < spec_quantile [3, 1] 0.75"
    unfolding spec_quantile_example by simp
  have t: "eval_cdf erf (demo 2 0 2 [[Fin 0], [Fin 1]]\<lparr>trainable_bandwidths := True\<rparr>)
         (map Fin [0, 1]) (Fin 0) (Fin x) = Inr (Fin (spec_F erf [0, 1] (1 / 2) x))"
    using make_cdf_is_kernel_cdf [of "[0, 1]" "demo 2 0 2 [[Fin 0], [Fin 1]]\<lparr>trainable_bandwidths := True\<rparr>" erf 0 x]
    by simp
  have h: "0 < spec_bandwidth [3, 1] \<and>
     eval_cdf erf (demo 2 0 2 [[Fin 3], [Fin 1]]) (map Fin [3, 1]) NaN (Fin x) =
       Inr (Fin (spec_F erf [3, 1] (spec_bandwidth [3, 1]) x))"
    using make_cdf_is_kernel_cdf [of "[3, 1]" "demo 2 0 2 [[Fin 3], [Fin 1]]" erf _ x NaN] q
    by simp
  show "[0, 1] \<noteq> ([] :: real list) \<and>
     trainable_bandwidths (demo 2 0 2 [[Fin 0], [Fin 1]]\<lparr>trainable_bandwidths := True\<rparr>) \<and>
     eval_cdf erf (demo 2 0 2 [[Fin 0], [Fin 1]]\<lparr>trainable_bandwidths := True\<rparr>)
         (map Fin [0, 1]) (Fin 0) (Fin x) = Inr (Fin (spec_F erf [0, 1] (1 / 2) x)) \<and>
     [3, 1] \<noteq> ([] :: real list) \<and>
     \<not> trainable_bandwidths (demo 2 0 2 [[Fin 3], [Fin 1]]) \<and>
     2 \<le> length [3, 1 :: real] \<and>
     spec_quantile [3, 1] 0.25 < spec_quantile [3, 1] 0.75 \<and>
     0 < spec_bandwidth [3, 1] \<and>
     eval_cdf erf (demo 2 0 2 [[Fin 3], [Fin 1]]) (map Fin [3, 1]) NaN (Fin x) =
       Inr (Fin (spec_F erf [3, 1] (spec_bandwidth [3, 1]) x))"
    using t h q by simp
qed

lemma std_single: "std [Fin c] = NaN"
  by (simp add: std_def fsum_def fsub_def Let_def)

lemma quantile_single: "quantile [Fin c] q = Inr (Fin c)"
  by (simp add: quantile_def lerp_def fsub_def Let_def)

text \<open>
  Claim C1, as stated, fails where the heuristic bandwidth is no positive number. For a
  reference sample of one value the standard deviation is NaN, and so are the bandwidth and
  the value of the CDF at every point. For a reference sample of two equal values the
  bandwidth is 0, and the value of the CDF at that value is \<open>0 / 0\<close>, NaN: no value of the
  formula.
\<close>

theorem make_cdf_degenerate_nan:
  "eval_cdf erf_series (demo 1 0 1 [[Fin 5]]) [Fin 5] NaN (Fin 7) = Inr NaN \<and>
   eval_cdf erf_series (demo 2 0 2 [[Fin 5], [Fin 5]]) [Fin 5, Fin 5] NaN (Fin 5) = Inr NaN"
proof -
  have b1: "make_cdf_bw (demo 1 0 1 [[Fin 5]]) [Fin 5] NaN = Inr NaN"
    by (simp add: make_cdf_bw_def quantile_single std_single fmin_def)
  have b2: "make_cdf_bw (demo 2 0 2 [[Fin 5], [Fin 5]]) [Fin 5, Fin 5] NaN = Inr (Fin 0)"
    by (simp add: make_cdf_bw_def quantile_const2 std_const2 fsub_def fmin_def)
  have "eval_cdf erf_series (demo 1 0 1 [[Fin 5]]) [Fin 5] NaN (Fin 7) = Inr NaN"
    by (simp add: eval_cdf_def make_cdf_def b1 standard_normal_cdf_def fsub_def fsum_def)
  moreover have "eval_cdf erf_series (demo 2 0 2 [[Fin 5], [Fin 5]]) [Fin 5, Fin 5] NaN (Fin 5) = Inr NaN"
    by (simp add: eval_cdf_def make_cdf_def b2 standard_normal_cdf_def fsub_def fsum_def)
  ultimately show ?thesis by simp
qed

end
